theory Spec2Isabelle
  imports Main "HOL-Library.Word"
begin

section \<open>The configuration store of cfgo\<close>

text \<open>
  The Go package keeps one struct,
  \<^verbatim>\<open>type config struct { mu sync.RWMutex; data map[string]any; sources []ConfigSource; cache map[string]any }\<close>,
  and every exported method works on it. The methods are modelled as functions that take the
  struct and return their result together with the struct as they leave it. The mutex is left
  out of this sequential part; the locking discipline is modelled on its own further down.
\<close>

subsection \<open>Values, errors and sources\<close>

text \<open>
  A value of Go's \<^verbatim>\<open>any\<close> is the nil interface, a \<^verbatim>\<open>string\<close>, or a value of some
  other dynamic type. The type switch of \<^verbatim>\<open>GetString\<close> separates exactly these three, so
  the other dynamic values stay abstract (the type variable \<open>'a\<close>); what \<^verbatim>\<open>fmt.Sprintf("%v", v)\<close>
  prints for them is a parameter \<open>sprintv\<close> of the getters.
\<close>

datatype 'a any = AnyNil | AnyString string | AnyOther 'a

datatype error = Error string

text \<open>
  A \<^verbatim>\<open>ConfigSource\<close> is an interface value supplied by the application. \<^verbatim>\<open>Load\<close> returns
  a map and an error, and it may do anything else besides: its effect is a function on an
  outside world \<open>'w\<close>. \<^verbatim>\<open>Watch\<close> is never called by the package.
\<close>

record ('a, 'w) ConfigSource =
  Name :: string
  Load :: "'w \<Rightarrow> ((string \<rightharpoonup> 'a any) \<times> error option) \<times> 'w"

record ('a, 'w) config =
  data :: "string \<rightharpoonup> 'a any"
  sources :: "('a, 'w) ConfigSource list"
  cache :: "string \<rightharpoonup> 'a any"

subsection \<open>Get, Set, Has, All, AddSource\<close>

text \<open>
  \<^verbatim>\<open>Get\<close>: a cache hit returns the cached value; otherwise a hit in \<^verbatim>\<open>data\<close> is copied into
  the cache and returned; otherwise the result is nil and nothing is written.
\<close>

definition Get :: "('a, 'w) config \<Rightarrow> string \<Rightarrow> 'a any \<times> ('a, 'w) config" where
  "Get c key =
     (case cache c key of
        Some val \<Rightarrow> (val, c)
      | None \<Rightarrow>
         (case data c key of
            Some val \<Rightarrow> (val, c\<lparr>cache := (cache c)(key \<mapsto> val)\<rparr>)
          | None \<Rightarrow> (AnyNil, c)))"

definition GetString :: "('a \<Rightarrow> string) \<Rightarrow> ('a, 'w) config \<Rightarrow> string \<Rightarrow> string \<times> ('a, 'w) config" where
  "GetString sprintv c key =
     (let (val, c') = Get c key in
      case val of
        AnyNil \<Rightarrow> ('''', c')
      | AnyString v \<Rightarrow> (v, c')
      | AnyOther v \<Rightarrow> (sprintv v, c'))"

definition Set :: "('a, 'w) config \<Rightarrow> string \<Rightarrow> 'a any \<Rightarrow> ('a, 'w) config" where
  "Set c key val = c\<lparr>data := (data c)(key \<mapsto> val), cache := (cache c)(key := None)\<rparr>"

definition Has :: "('a, 'w) config \<Rightarrow> string \<Rightarrow> bool" where
  "Has c key = (case data c key of Some _ \<Rightarrow> True | None \<Rightarrow> False)"

text \<open>\<^verbatim>\<open>All\<close> copies every entry of \<^verbatim>\<open>data\<close> into a fresh map: the copy is the same map.\<close>

definition All :: "('a, 'w) config \<Rightarrow> (string \<rightharpoonup> 'a any)" where
  "All c = (\<lambda>k. data c k)"

definition AddSource :: "('a, 'w) config \<Rightarrow> ('a, 'w) ConfigSource \<Rightarrow> ('a, 'w) config" where
  "AddSource c source = c\<lparr>sources := sources c @ [source]\<rparr>"

subsection \<open>The functions of Go's standard library that the getters call\<close>

text \<open>
  Go strings are byte sequences, as \<open>string\<close> is here. \<^verbatim>\<open>strings.HasPrefix\<close>,
  \<^verbatim>\<open>strings.HasSuffix\<close> and \<^verbatim>\<open>strings.TrimPrefix\<close>:
\<close>

definition HasPrefix :: "string \<Rightarrow> string \<Rightarrow> bool" where
  "HasPrefix s p = (length p \<le> length s \<and> take (length p) s = p)"

definition HasSuffix :: "string \<Rightarrow> string \<Rightarrow> bool" where
  "HasSuffix s p = (length p \<le> length s \<and> drop (length s - length p) s = p)"

definition TrimPrefix :: "string \<Rightarrow> string \<Rightarrow> string" where
  "TrimPrefix s p = (if HasPrefix s p then drop (length p) s else s)"

text \<open>
  \<^verbatim>\<open>strings.TrimSpace\<close> removes leading and trailing white space as Unicode defines it:
  the six ASCII characters below, and the code points U+0085, U+00A0, U+1680,
  U+2000 to U+200A, U+2028, U+2029, U+202F, U+205F and U+3000, which a Go string holds in
  UTF-8. A byte sequence that is not one of these encodings decodes to another rune or to
  the error rune, and neither is white space.
\<close>

definition asciiSpace :: "char \<Rightarrow> bool" where
  "asciiSpace c = (c = CHR 0x09 \<or> c = CHR 0x0A \<or> c = CHR 0x0B \<or> c = CHR 0x0C
                    \<or> c = CHR 0x0D \<or> c = CHR 0x20)"

definition unicodeSpace :: "string list" where
  "unicodeSpace =
     [[CHR 0xC2, CHR 0x85], [CHR 0xC2, CHR 0xA0], [CHR 0xE1, CHR 0x9A, CHR 0x80],
      [CHR 0xE2, CHR 0x80, CHR 0x80], [CHR 0xE2, CHR 0x80, CHR 0x81],
      [CHR 0xE2, CHR 0x80, CHR 0x82], [CHR 0xE2, CHR 0x80, CHR 0x83],
      [CHR 0xE2, CHR 0x80, CHR 0x84], [CHR 0xE2, CHR 0x80, CHR 0x85],
      [CHR 0xE2, CHR 0x80, CHR 0x86], [CHR 0xE2, CHR 0x80, CHR 0x87],
      [CHR 0xE2, CHR 0x80, CHR 0x88], [CHR 0xE2, CHR 0x80, CHR 0x89],
      [CHR 0xE2, CHR 0x80, CHR 0x8A], [CHR 0xE2, CHR 0x80, CHR 0xA8],
      [CHR 0xE2, CHR 0x80, CHR 0xA9], [CHR 0xE2, CHR 0x80, CHR 0xAF],
      [CHR 0xE2, CHR 0x81, CHR 0x9F], [CHR 0xE3, CHR 0x80, CHR 0x80]]"

text \<open>The width in bytes of the white-space rune a string begins (ends) with; 0 when there is none.\<close>

definition leadingSpace :: "string \<Rightarrow> nat" where
  "leadingSpace s =
     (case s of
        [] \<Rightarrow> 0
      | c # _ \<Rightarrow>
          if asciiSpace c then 1
          else (case find (HasPrefix s) unicodeSpace of Some t \<Rightarrow> length t | None \<Rightarrow> 0))"

definition trailingSpace :: "string \<Rightarrow> nat" where
  "trailingSpace s =
     (if s = [] then 0
      else if asciiSpace (last s) then 1
      else (case find (HasSuffix s) unicodeSpace of Some t \<Rightarrow> length t | None \<Rightarrow> 0))"

lemma leadingSpace_pos: "0 < leadingSpace s \<Longrightarrow> s \<noteq> []"
  by (auto simp: leadingSpace_def)

lemma trailingSpace_pos: "0 < trailingSpace s \<Longrightarrow> s \<noteq> []"
  by (auto simp: trailingSpace_def)

function TrimLeftSpace :: "string \<Rightarrow> string" where
  "TrimLeftSpace s =
     (if 0 < leadingSpace s then TrimLeftSpace (drop (leadingSpace s) s) else s)"
  by pat_completeness auto
termination
proof (relation "measure length")
  show "wf (measure length)" by simp
next
  fix s :: string
  assume pos: "0 < leadingSpace s"
  then have "s \<noteq> []" by (rule leadingSpace_pos)
  with pos show "(drop (leadingSpace s) s, s) \<in> measure length" by simp
qed

function TrimRightSpace :: "string \<Rightarrow> string" where
  "TrimRightSpace s =
     (if 0 < trailingSpace s then TrimRightSpace (take (length s - trailingSpace s) s) else s)"
  by pat_completeness auto
termination
proof (relation "measure length")
  show "wf (measure length)" by simp
next
  fix s :: string
  assume pos: "0 < trailingSpace s"
  then have "s \<noteq> []" by (rule trailingSpace_pos)
  with pos show "(take (length s - trailingSpace s) s, s) \<in> measure length" by simp
qed

declare TrimLeftSpace.simps [simp del] TrimRightSpace.simps [simp del]

definition TrimSpace :: "string \<Rightarrow> string" where
  "TrimSpace s = TrimRightSpace (TrimLeftSpace s)"

text \<open>
  \<^verbatim>\<open>strings.Trim(s, cutset)\<close> for a cutset of ASCII characters drops every leading and then
  every trailing byte that is in the cutset.
\<close>

definition Trim :: "string \<Rightarrow> string \<Rightarrow> string" where
  "Trim s cutset =
     rev (dropWhile (\<lambda>c. c \<in> set cutset) (rev (dropWhile (\<lambda>c. c \<in> set cutset) s)))"

text \<open>
  \<^verbatim>\<open>strings.SplitN(s, sep, 2)\<close> with a one-character separator: the string itself when the
  separator does not occur, else what is before and what is after its first occurrence.
\<close>

definition SplitN2 :: "string \<Rightarrow> char \<Rightarrow> string list" where
  "SplitN2 s sep =
     (if sep \<in> set s
      then [takeWhile (\<lambda>c. c \<noteq> sep) s, tl (dropWhile (\<lambda>c. c \<noteq> sep) s)]
      else [s])"

text \<open>\<^verbatim>\<open>strings.Split(s, sep)\<close> with a one-character separator; the empty string gives one empty part.\<close>

fun Split :: "string \<Rightarrow> char \<Rightarrow> string list" where
  "Split [] sep = [[]]"
| "Split (c # cs) sep =
     (if c = sep then [] # Split cs sep
      else (case Split cs sep of p # ps \<Rightarrow> (c # p) # ps | [] \<Rightarrow> [[c]]))"

text \<open>
  \<^verbatim>\<open>strconv\<close> reports a failure as \<^verbatim>\<open>ErrSyntax\<close> or \<^verbatim>\<open>ErrRange\<close>, next to a value.
  \<^verbatim>\<open>strconv.ParseBool\<close> accepts twelve spellings and nothing else.
\<close>

datatype NumError = ErrSyntax | ErrRange

definition ParseBool :: "string \<Rightarrow> bool \<times> NumError option" where
  "ParseBool str =
     (if str \<in> set [''1'', ''t'', ''T'', ''TRUE'', ''true'', ''True''] then (True, None)
      else if str \<in> set [''0'', ''f'', ''F'', ''FALSE'', ''false'', ''False''] then (False, None)
      else (False, Some ErrSyntax))"

type_synonym uint64 = "64 word"
type_synonym int64 = "64 word"
type_synonym float64 = "64 word"

text \<open>
  \<^verbatim>\<open>strconv.ParseUint(s, 10, bitSize)\<close>: the loop over the bytes of \<open>s\<close> works in \<^verbatim>\<open>uint64\<close>.
  In base 10 every byte that is not a decimal digit is a syntax error (a letter is a digit
  of value 10 or more, an underscore is accepted in base 0 only). The loop returns
  at the first byte that overflows, without looking at the bytes after it.
\<close>

definition isDigit :: "char \<Rightarrow> bool" where
  "isDigit c = (48 \<le> (of_char c :: nat) \<and> (of_char c :: nat) \<le> 57)"

definition digitVal :: "char \<Rightarrow> uint64" where
  "digitVal c = of_nat ((of_char c :: nat) - 48)"

definition maxUint64 :: uint64 where
  "maxUint64 = - 1"

fun ParseUint_loop :: "uint64 \<Rightarrow> string \<Rightarrow> uint64 \<Rightarrow> uint64 \<times> NumError option" where
  "ParseUint_loop maxVal [] n = (n, None)"
| "ParseUint_loop maxVal (c # cs) n =
     (if \<not> isDigit c then (0, Some ErrSyntax)
      else if n \<ge> maxUint64 div 10 + 1 then (maxVal, Some ErrRange)
      else
        (let n' = n * 10; n1 = n' + digitVal c in
         if n1 < n' \<or> n1 > maxVal then (maxVal, Some ErrRange)
         else ParseUint_loop maxVal cs n1))"

definition ParseUint :: "string \<Rightarrow> nat \<Rightarrow> uint64 \<times> NumError option" where
  "ParseUint s bitSize =
     (if s = [] then (0, Some ErrSyntax)
      else ParseUint_loop (push_bit bitSize 1 - 1) s 0)"

text \<open>
  \<^verbatim>\<open>strconv.ParseInt(s, 10, bitSize)\<close>: an optional sign, then \<^verbatim>\<open>ParseUint\<close>; a syntax
  error gives 0, a value out of range gives the largest or the smallest value of the size.
\<close>

definition ParseInt :: "string \<Rightarrow> nat \<Rightarrow> int64 \<times> NumError option" where
  "ParseInt s bitSize =
     (if s = [] then (0, Some ErrSyntax)
      else
        (let neg = (hd s = CHR ''-'');
             s' = (if hd s = CHR ''+'' \<or> hd s = CHR ''-'' then tl s else s);
             (un, err) = ParseUint s' bitSize;
             cutoff = (push_bit (bitSize - 1) 1 :: uint64)
         in if err = Some ErrSyntax then (0, err)
            else if \<not> neg \<and> un \<ge> cutoff then (cutoff - 1, Some ErrRange)
            else if neg \<and> un > cutoff then (- cutoff, Some ErrRange)
            else (if neg then - un else un, None)))"

text \<open>
  \<^verbatim>\<open>strconv.Atoi(s)\<close> is \<^verbatim>\<open>ParseInt(s, 10, 0)\<close> with a shortcut for short strings that
  gives the same results; size 0 stands for the size of \<^verbatim>\<open>int\<close>, which is 32 or 64 bits
  by platform and is the parameter \<open>intSize\<close> here. \<^verbatim>\<open>Atoi\<close> converts the \<^verbatim>\<open>int64\<close> that
  \<^verbatim>\<open>ParseInt\<close> returns to \<^verbatim>\<open>int\<close>, which keeps its value, for it lies in the range of
  \<^verbatim>\<open>int\<close>; an \<^verbatim>\<open>int\<close> is given here as that \<^verbatim>\<open>int64\<close>.
\<close>

definition Atoi :: "nat \<Rightarrow> string \<Rightarrow> int64 \<times> NumError option" where
  "Atoi intSize s = ParseInt s intSize"

text \<open>
  \<^verbatim>\<open>strconv.ParseFloat(s, 64)\<close> ends in one of three ways. When \<open>s\<close> is not a well-formed
  number, it returns 0 and \<^verbatim>\<open>ErrSyntax\<close>; the empty string is not well-formed. When \<open>s\<close> is
  well-formed but more than half a unit in the last place beyond the largest \<^verbatim>\<open>float64\<close>, it
  returns the infinity of the sign that \<open>s\<close> begins with, and \<^verbatim>\<open>ErrRange\<close>. Otherwise it
  returns the nearest \<^verbatim>\<open>float64\<close> and no error. The grammar of the numbers and the rounding
  are the parameter \<open>readFloat\<close>, which says of a string which of the three it is. Of a
  \<^verbatim>\<open>float64\<close> the 64 bits are given: those of \<open>+Inf\<close> and \<open>-Inf\<close> are below, those of 0 are 0.
\<close>

datatype float_reading = Malformed | TooLarge | Value float64

definition posInf :: float64 where
  "posInf = 0x7FF0000000000000"

definition negInf :: float64 where
  "negInf = 0xFFF0000000000000"

definition ParseFloat64 :: "(string \<Rightarrow> float_reading) \<Rightarrow> string \<Rightarrow> float64 \<times> NumError option" where
  "ParseFloat64 readFloat s =
     (if s = [] then (0, Some ErrSyntax)
      else
        (case readFloat s of
           Malformed \<Rightarrow> (0, Some ErrSyntax)
         | TooLarge \<Rightarrow> (if hd s = CHR ''-'' then negInf else posInf, Some ErrRange)
         | Value f \<Rightarrow> (f, None)))"

subsection \<open>The typed getters\<close>

text \<open>
  Each getter calls \<^verbatim>\<open>GetString\<close>, returns the zero value on the empty string, and
  otherwise returns the value its parser gives, dropping the parser's error.
  \<^verbatim>\<open>GetInt\<close> has the size of \<^verbatim>\<open>int\<close> as a parameter. \<^verbatim>\<open>strconv.ParseFloat\<close> and
  \<^verbatim>\<open>time.ParseDuration\<close> are parameters, so that what is proved of \<^verbatim>\<open>GetFloat64\<close> and
  \<^verbatim>\<open>GetDuration\<close> for every parser holds for these two; the parser that the code gives to
  \<^verbatim>\<open>GetFloat64\<close> is \<open>ParseFloat64 readFloat\<close>. A \<^verbatim>\<open>float64\<close> is its 64 bits and a
  \<^verbatim>\<open>time.Duration\<close> an \<^verbatim>\<open>int64\<close> of nanoseconds.
\<close>

definition GetInt ::
  "nat \<Rightarrow> ('a \<Rightarrow> string) \<Rightarrow> ('a, 'w) config \<Rightarrow> string \<Rightarrow> int64 \<times> ('a, 'w) config" where
  "GetInt intSize sprintv c key =
     (let (val, c') = GetString sprintv c key in
      if val = '''' then (0, c') else (fst (Atoi intSize val), c'))"

definition GetInt64 :: "('a \<Rightarrow> string) \<Rightarrow> ('a, 'w) config \<Rightarrow> string \<Rightarrow> int64 \<times> ('a, 'w) config" where
  "GetInt64 sprintv c key =
     (let (val, c') = GetString sprintv c key in
      if val = '''' then (0, c') else (fst (ParseInt val 64), c'))"

definition GetFloat64 ::
  "(string \<Rightarrow> float64 \<times> NumError option) \<Rightarrow> ('a \<Rightarrow> string) \<Rightarrow> ('a, 'w) config \<Rightarrow> string
     \<Rightarrow> float64 \<times> ('a, 'w) config" where
  "GetFloat64 ParseFloat sprintv c key =
     (let (val, c') = GetString sprintv c key in
      if val = '''' then (0, c') else (fst (ParseFloat val), c'))"

definition GetBool :: "('a \<Rightarrow> string) \<Rightarrow> ('a, 'w) config \<Rightarrow> string \<Rightarrow> bool \<times> ('a, 'w) config" where
  "GetBool sprintv c key =
     (let (val, c') = GetString sprintv c key in
      if val = '''' then (False, c') else (fst (ParseBool val), c'))"

definition GetDuration ::
  "(string \<Rightarrow> int64 \<times> error option) \<Rightarrow> ('a \<Rightarrow> string) \<Rightarrow> ('a, 'w) config \<Rightarrow> string
     \<Rightarrow> int64 \<times> ('a, 'w) config" where
  "GetDuration ParseDuration sprintv c key =
     (let (val, c') = GetString sprintv c key in
      if val = '''' then (0, c') else (fst (ParseDuration val), c'))"

definition GetStringSlice ::
  "('a \<Rightarrow> string) \<Rightarrow> ('a, 'w) config \<Rightarrow> string \<Rightarrow> string list \<times> ('a, 'w) config" where
  "GetStringSlice sprintv c key =
     (let (val, c') = GetString sprintv c key in
      if val = '''' then ([], c')
      else (filter (\<lambda>trimmed. trimmed \<noteq> '''') (map TrimSpace (Split val CHR '','')), c'))"

text \<open>
  \<^verbatim>\<open>GetStringMap\<close> ranges over \<^verbatim>\<open>data\<close> and stores \<open>v\<close> under \<^verbatim>\<open>TrimPrefix(k, prefix)\<close>
  for every entry \<open>(k, v)\<close> whose key has the prefix: the result has \<open>v\<close> under \<open>mapKey\<close>
  exactly when \<^verbatim>\<open>data\<close> has \<open>v\<close> under \<open>prefix @ mapKey\<close>. It reads \<^verbatim>\<open>data\<close> only.
\<close>

definition GetStringMap :: "('a, 'w) config \<Rightarrow> string \<Rightarrow> (string \<rightharpoonup> 'a any)" where
  "GetStringMap c key = (let prefix = key @ ''.'' in (\<lambda>mapKey. data c (prefix @ mapKey)))"

subsection \<open>The layered loader\<close>

text \<open>
  What the loader reads from the operating system: \<open>Lines filename\<close> is \<open>None\<close> when
  \<^verbatim>\<open>os.Open\<close> fails, else the lines that the \<^verbatim>\<open>bufio.Scanner\<close> yields for the file;
  \<open>Getenv\<close> is \<^verbatim>\<open>os.Getenv\<close>, the empty string for an unset variable; \<open>Environ\<close> is the
  list \<^verbatim>\<open>os.Environ()\<close> of \<^verbatim>\<open>NAME=value\<close> strings.
\<close>

record os =
  Lines :: "string \<Rightarrow> string list option"
  Getenv :: "string \<Rightarrow> string"
  Environ :: "string list"

text \<open>
  The body of the scanning loop of \<^verbatim>\<open>loadEnvFile\<close> on one line: \<open>None\<close> where the loop
  continues without storing, else the key and the value it stores. The cutset of the
  \<^verbatim>\<open>strings.Trim\<close> call holds the double and the single quote.
\<close>

definition envLine :: "string \<Rightarrow> (string \<times> string) option" where
  "envLine text =
     (let line = TrimSpace text in
      if line = [] \<or> HasPrefix line ''#'' then None
      else
        (let parts = SplitN2 line CHR ''='' in
         if length parts \<noteq> 2 then None
         else
           (let key = TrimSpace (parts ! 0);
                val = TrimSpace (parts ! 1);
                val = Trim val [CHR 0x22, CHR 0x27]
            in Some (key, val))))"

definition loadEnvFile :: "os \<Rightarrow> ('a, 'w) config \<Rightarrow> string \<Rightarrow> ('a, 'w) config" where
  "loadEnvFile os c filename =
     (case Lines os filename of
        None \<Rightarrow> c
      | Some lines \<Rightarrow>
          fold (\<lambda>text c. case envLine text of
                            None \<Rightarrow> c
                          | Some (key, val) \<Rightarrow> c\<lparr>data := (data c)(key \<mapsto> AnyString val)\<rparr>)
               lines c)"

definition loadEnvFiles :: "os \<Rightarrow> ('a, 'w) config \<Rightarrow> ('a, 'w) config" where
  "loadEnvFiles os c =
     (let c = loadEnvFile os c ''.env'';
          c = loadEnvFile os c ''.local.env'';
          env = Getenv os ''APP_ENV'';
          env = (if env = [] then ''dev'' else env);
          envFile = ''.'' @ env @ ''.env''
      in loadEnvFile os c envFile)"

definition loadSystemEnv :: "os \<Rightarrow> ('a, 'w) config \<Rightarrow> ('a, 'w) config" where
  "loadSystemEnv os c =
     fold (\<lambda>env c. let parts = SplitN2 env CHR ''='' in
                    if length parts = 2
                    then c\<lparr>data := (data c)(parts ! 0 \<mapsto> AnyString (parts ! 1))\<rparr>
                    else c)
          (Environ os) c"

definition New :: "os \<Rightarrow> ('a, 'w) config" where
  "New os =
     (let c = \<lparr>data = Map.empty, sources = [], cache = Map.empty\<rparr>;
          c = loadEnvFiles os c
      in loadSystemEnv os c)"

subsection \<open>Reload\<close>

text \<open>
  The loop of \<^verbatim>\<open>Reload\<close> over the registered sources. A source whose \<^verbatim>\<open>Load\<close> returns an
  error ends the loop with that error; otherwise every entry of the returned map is written
  into \<^verbatim>\<open>data\<close>, which is \<open>data c ++ m\<close> whatever order the range over the map takes.
  The result is the error (\<open>None\<close> for nil), the store and the world.
\<close>

fun Reload_sources ::
  "('a, 'w) ConfigSource list \<Rightarrow> ('a, 'w) config \<Rightarrow> 'w \<Rightarrow> error option \<times> ('a, 'w) config \<times> 'w" where
  "Reload_sources [] c w = (None, c, w)"
| "Reload_sources (source # rest) c w =
     (case Load source w of
        ((m, Some err), w') \<Rightarrow> (Some err, c, w')
      | ((m, None), w') \<Rightarrow> Reload_sources rest (c\<lparr>data := data c ++ m\<rparr>) w')"

definition Reload :: "os \<Rightarrow> ('a, 'w) config \<Rightarrow> 'w \<Rightarrow> error option \<times> ('a, 'w) config \<times> 'w" where
  "Reload os c w =
     (let c = c\<lparr>cache := Map.empty\<rparr>;
          c = c\<lparr>data := Map.empty\<rparr>;
          c = loadEnvFiles os c;
          c = loadSystemEnv os c
      in Reload_sources (sources c) c w)"

subsection \<open>Layers, as the specification speaks of them\<close>

text \<open>
  The specification speaks of layers and of their precedence. A layer is the map that loading
  it alone yields: for a file, what the scanning loop of \<^verbatim>\<open>loadEnvFile\<close> stores when it starts
  from the empty map (the empty map when the file cannot be opened); for the process
  environment, what the loop of \<^verbatim>\<open>loadSystemEnv\<close> stores. A later line of a file, or a later
  entry of the environment, overwrites an earlier one with the same key.
\<close>

definition fileLayer :: "os \<Rightarrow> string \<Rightarrow> (string \<rightharpoonup> 'a any)" where
  "fileLayer os filename =
     (case Lines os filename of
        None \<Rightarrow> Map.empty
      | Some lines \<Rightarrow>
          fold (\<lambda>text d. case envLine text of
                            None \<Rightarrow> d
                          | Some (key, val) \<Rightarrow> d(key \<mapsto> AnyString val))
               lines Map.empty)"

definition environLayer :: "os \<Rightarrow> (string \<rightharpoonup> 'a any)" where
  "environLayer os =
     fold (\<lambda>env d. let parts = SplitN2 env CHR ''='' in
                    if length parts = 2 then d(parts ! 0 \<mapsto> AnyString (parts ! 1)) else d)
          (Environ os) Map.empty"

text \<open>The name of the environment-specific file: \<^verbatim>\<open>dev\<close> stands in for an unset or empty \<^verbatim>\<open>APP_ENV\<close>.\<close>

definition envFileName :: "os \<Rightarrow> string" where
  "envFileName os =
     ''.'' @ (if Getenv os ''APP_ENV'' = [] then ''dev'' else Getenv os ''APP_ENV'') @ ''.env''"

text \<open>The four layers of the loader, the one of highest precedence first.\<close>

definition loaderLayers :: "os \<Rightarrow> (string \<rightharpoonup> 'a any) list" where
  "loaderLayers os =
     [environLayer os, fileLayer os (envFileName os), fileLayer os ''.local.env'',
      fileLayer os ''.env'']"

text \<open>
  The maps that the sources return in one \<^verbatim>\<open>Reload\<close>, in registration order, up to the first
  source whose \<^verbatim>\<open>Load\<close> returns an error; each \<^verbatim>\<open>Load\<close> runs in the world its predecessor left.
\<close>

fun mergedMaps :: "('a, 'w) ConfigSource list \<Rightarrow> 'w \<Rightarrow> (string \<rightharpoonup> 'a any) list" where
  "mergedMaps [] w = []"
| "mergedMaps (source # rest) w =
     (case Load source w of
        ((m, Some err), w') \<Rightarrow> []
      | ((m, None), w') \<Rightarrow> m # mergedMaps rest w')"

text \<open>
  The value a key has in a list of layers that begins with the layer of highest precedence:
  the value in the first layer that has the key.
\<close>

fun layered :: "('k \<rightharpoonup> 'v) list \<Rightarrow> 'k \<Rightarrow> 'v option" where
  "layered [] k = None"
| "layered (m # ms) k = (case m k of Some v \<Rightarrow> Some v | None \<Rightarrow> layered ms k)"

subsection \<open>Sequences of operations\<close>

text \<open>
  A program uses the store through its methods, one call after the other. A call is a value
  of \<open>op\<close>; \<open>exec\<close> runs one call on the store and the world and drops the call's result,
  \<open>run\<close> runs a list of calls. \<^verbatim>\<open>Reload\<close> meets the files and the environment of the
  moment it runs in, so the call carries them.
\<close>

datatype ('a, 'w) op =
    OpGet string
  | OpGetString string
  | OpGetInt string
  | OpGetInt64 string
  | OpGetFloat64 string
  | OpGetBool string
  | OpGetDuration string
  | OpGetStringSlice string
  | OpGetStringMap string
  | OpSet string "'a any"
  | OpHas string
  | OpAll
  | OpReload os
  | OpAddSource "('a, 'w) ConfigSource"

fun exec ::
  "nat \<Rightarrow> ('a \<Rightarrow> string) \<Rightarrow> (string \<Rightarrow> float64 \<times> NumError option) \<Rightarrow> (string \<Rightarrow> int64 \<times> error option)
     \<Rightarrow> ('a, 'w) op \<Rightarrow> ('a, 'w) config \<times> 'w \<Rightarrow> ('a, 'w) config \<times> 'w" where
  "exec intSize sprintv pf pd (OpGet key) (c, w) = (snd (Get c key), w)"
| "exec intSize sprintv pf pd (OpGetString key) (c, w) = (snd (GetString sprintv c key), w)"
| "exec intSize sprintv pf pd (OpGetInt key) (c, w) = (snd (GetInt intSize sprintv c key), w)"
| "exec intSize sprintv pf pd (OpGetInt64 key) (c, w) = (snd (GetInt64 sprintv c key), w)"
| "exec intSize sprintv pf pd (OpGetFloat64 key) (c, w) = (snd (GetFloat64 pf sprintv c key), w)"
| "exec intSize sprintv pf pd (OpGetBool key) (c, w) = (snd (GetBool sprintv c key), w)"
| "exec intSize sprintv pf pd (OpGetDuration key) (c, w) = (snd (GetDuration pd sprintv c key), w)"
| "exec intSize sprintv pf pd (OpGetStringSlice key) (c, w) = (snd (GetStringSlice sprintv c key), w)"
| "exec intSize sprintv pf pd (OpGetStringMap key) (c, w) = (c, w)"
| "exec intSize sprintv pf pd (OpSet key val) (c, w) = (Set c key val, w)"
| "exec intSize sprintv pf pd (OpHas key) (c, w) = (c, w)"
| "exec intSize sprintv pf pd OpAll (c, w) = (c, w)"
| "exec intSize sprintv pf pd (OpReload os) (c, w) = snd (Reload os c w)"
| "exec intSize sprintv pf pd (OpAddSource source) (c, w) = (AddSource c source, w)"

definition run ::
  "nat \<Rightarrow> ('a \<Rightarrow> string) \<Rightarrow> (string \<Rightarrow> float64 \<times> NumError option) \<Rightarrow> (string \<Rightarrow> int64 \<times> error option)
     \<Rightarrow> ('a, 'w) op list \<Rightarrow> ('a, 'w) config \<times> 'w \<Rightarrow> ('a, 'w) config \<times> 'w" where
  "run intSize sprintv pf pd ops s = fold (exec intSize sprintv pf pd) ops s"

text \<open>The key that a call reads through \<^verbatim>\<open>Get\<close>, for the calls that go through \<^verbatim>\<open>Get\<close>.\<close>

fun read_key :: "('a, 'w) op \<Rightarrow> string option" where
  "read_key (OpGet key) = Some key"
| "read_key (OpGetString key) = Some key"
| "read_key (OpGetInt key) = Some key"
| "read_key (OpGetInt64 key) = Some key"
| "read_key (OpGetFloat64 key) = Some key"
| "read_key (OpGetBool key) = Some key"
| "read_key (OpGetDuration key) = Some key"
| "read_key (OpGetStringSlice key) = Some key"
| "read_key _ = None"

subsection \<open>Get and Set as interleaved steps under the mutex\<close>

text \<open>
  For concurrent callers the bodies of \<^verbatim>\<open>Get\<close> and \<^verbatim>\<open>Set\<close> are cut into their steps, each
  step atomic: taking the lock, one access to a map, releasing the lock (the deferred call).
  A goroutine inside \<^verbatim>\<open>Get\<close> or \<^verbatim>\<open>Set\<close> is its argument, the local \<^verbatim>\<open>val\<close> of \<^verbatim>\<open>Get\<close>, and
  the step it takes next. Of the \<^verbatim>\<open>sync.RWMutex\<close> the model keeps how many goroutines hold
  the read lock and whether one holds the write lock: \<^verbatim>\<open>RLock\<close> waits while the write lock
  is held, \<^verbatim>\<open>Lock\<close> waits while any lock is held.
\<close>

datatype get_pc = GetRLock | GetCheckCache | GetCheckData | GetFillCache | GetRUnlock | GetReturned

datatype set_pc = SetLock | SetWriteData | SetDeleteCache | SetUnlock | SetReturned

datatype 'a thread = InGet string get_pc "'a any" | InSet string "'a any" set_pc

record ('a, 'w) shared =
  readers :: nat
  writer :: bool
  store :: "('a, 'w) config"

text \<open>One step of a goroutine; \<open>None\<close> when it waits for the lock or has returned.\<close>

fun thread_step :: "'a thread \<Rightarrow> ('a, 'w) shared \<Rightarrow> ('a thread \<times> ('a, 'w) shared) option" where
  "thread_step (InGet key GetRLock val) s =
     (if writer s then None
      else Some (InGet key GetCheckCache val, s\<lparr>readers := readers s + 1\<rparr>))"
| "thread_step (InGet key GetCheckCache val) s =
     (case cache (store s) key of
        Some v \<Rightarrow> Some (InGet key GetRUnlock v, s)
      | None \<Rightarrow> Some (InGet key GetCheckData val, s))"
| "thread_step (InGet key GetCheckData val) s =
     (case data (store s) key of
        Some v \<Rightarrow> Some (InGet key GetFillCache v, s)
      | None \<Rightarrow> Some (InGet key GetRUnlock AnyNil, s))"
| "thread_step (InGet key GetFillCache val) s =
     Some (InGet key GetRUnlock val,
           s\<lparr>store := (store s)\<lparr>cache := (cache (store s))(key \<mapsto> val)\<rparr>\<rparr>)"
| "thread_step (InGet key GetRUnlock val) s =
     Some (InGet key GetReturned val, s\<lparr>readers := readers s - 1\<rparr>)"
| "thread_step (InGet key GetReturned val) s = None"
| "thread_step (InSet key val SetLock) s =
     (if writer s \<or> 0 < readers s then None
      else Some (InSet key val SetWriteData, s\<lparr>writer := True\<rparr>))"
| "thread_step (InSet key val SetWriteData) s =
     Some (InSet key val SetDeleteCache,
           s\<lparr>store := (store s)\<lparr>data := (data (store s))(key \<mapsto> val)\<rparr>\<rparr>)"
| "thread_step (InSet key val SetDeleteCache) s =
     Some (InSet key val SetUnlock,
           s\<lparr>store := (store s)\<lparr>cache := (cache (store s))(key := None)\<rparr>\<rparr>)"
| "thread_step (InSet key val SetUnlock) s =
     Some (InSet key val SetReturned, s\<lparr>writer := False\<rparr>)"
| "thread_step (InSet key val SetReturned) s = None"

text \<open>
  The scheduler lets goroutine \<open>i\<close> take its next step; nothing happens when that goroutine
  waits or has returned. A schedule is a list of such choices.
\<close>

definition sched ::
  "nat \<Rightarrow> 'a thread list \<times> ('a, 'w) shared \<Rightarrow> 'a thread list \<times> ('a, 'w) shared" where
  "sched i = (\<lambda>(ts, s).
     if i < length ts
     then (case thread_step (ts ! i) s of
             None \<Rightarrow> (ts, s)
           | Some (t', s') \<Rightarrow> (ts[i := t'], s'))
     else (ts, s))"

text \<open>The next step of the goroutine writes the map \<^verbatim>\<open>c.cache\<close>.\<close>

fun writes_cache :: "'a thread \<Rightarrow> bool" where
  "writes_cache (InGet key GetFillCache val) = True"
| "writes_cache (InSet key val SetDeleteCache) = True"
| "writes_cache _ = False"

text \<open>
  The goroutine holds the read lock, or the write lock: it is between the step that takes
  the lock and the step that releases it. The mutex is consistent with the goroutines when it
  counts exactly the holders of the read lock, and the write lock is held by exactly one
  goroutine while no read lock is held, or by none.
\<close>

fun holds_read :: "'a thread \<Rightarrow> bool" where
  "holds_read (InGet key pc val) =
     (pc = GetCheckCache \<or> pc = GetCheckData \<or> pc = GetFillCache \<or> pc = GetRUnlock)"
| "holds_read (InSet key val pc) = False"

fun holds_write :: "'a thread \<Rightarrow> bool" where
  "holds_write (InSet key val pc) = (pc = SetWriteData \<or> pc = SetDeleteCache \<or> pc = SetUnlock)"
| "holds_write (InGet key pc val) = False"

definition mutex_inv :: "'a thread list \<times> ('a, 'w) shared \<Rightarrow> bool" where
  "mutex_inv = (\<lambda>(ts, s).
     readers s = length (filter holds_read ts)
     \<and> (if writer s then length (filter holds_write ts) = 1 \<and> readers s = 0
         else length (filter holds_write ts) = 0))"

subsection \<open>Stores used as concrete inputs\<close>

text \<open>Stores as a test would build them, with \<open>unit\<close> for the other dynamic values and the world.\<close>

definition emptyConfig :: "(unit, unit) config" where
  "emptyConfig = \<lparr>data = Map.empty, sources = [], cache = Map.empty\<rparr>"

definition mixedCaseConfig :: "(unit, unit) config" where
  "mixedCaseConfig =
     \<lparr>data = [''DEBUG'' \<mapsto> AnyString ''tRuE''], sources = [], cache = Map.empty\<rparr>"

definition bigConfig :: "(unit, unit) config" where
  "bigConfig =
     \<lparr>data = [''MAX_CONN'' \<mapsto> AnyString ''9223372036854775808'',
              ''PORT'' \<mapsto> AnyString ''80a''], sources = [], cache = Map.empty\<rparr>"

definition overflowConfig :: "(unit, unit) config" where
  "overflowConfig =
     \<lparr>data = [''RATE'' \<mapsto> AnyString ''1e999''], sources = [], cache = Map.empty\<rparr>"

text \<open>
  What \<^verbatim>\<open>strconv.ParseFloat\<close> makes of the strings in these stores: \<^verbatim>\<open>80a\<close> is not a
  number, \<^verbatim>\<open>1e999\<close> is beyond the largest \<^verbatim>\<open>float64\<close>, and \<^verbatim>\<open>9223372036854775808\<close> is
  \<open>2^63\<close>, the \<^verbatim>\<open>float64\<close> with the bits \<^verbatim>\<open>0x43E0000000000000\<close>. The function is used on
  these three strings only.
\<close>

definition exampleReading :: "string \<Rightarrow> float_reading" where
  "exampleReading s =
     (if s = ''1e999'' then TooLarge
      else if s = ''9223372036854775808'' then Value 0x43E0000000000000
      else Malformed)"

text \<open>
  An environment as the package's test \<^verbatim>\<open>TestLoadEnvFiles\<close> sets it up, with \<^verbatim>\<open>APP_ENV\<close>
  unset and one variable in the process environment; and three sources whose \<^verbatim>\<open>Load\<close>
  counts its calls in the world.
\<close>

definition testOS :: os where
  "testOS =
     \<lparr>Lines = (\<lambda>filename.
         if filename = ''.env'' then Some [''BASE_KEY=base_value'', ''SHARED_KEY=base_shared'']
         else if filename = ''.local.env''
           then Some [''LOCAL_KEY=local_value'', ''SHARED_KEY=local_shared'', ''PORT=8080'']
         else if filename = ''.dev.env'' then Some [''DEV_KEY=dev_value'', ''SHARED_KEY=dev_shared'']
         else None),
      Getenv = (\<lambda>name. if name = ''PORT'' then ''9090'' else []),
      Environ = [''PORT=9090'']\<rparr>"

definition goodSource :: "(unit, nat) ConfigSource" where
  "goodSource =
     \<lparr>Name = ''good'',
      Load = (\<lambda>w. (([''PORT'' \<mapsto> AnyString ''7070'', ''REGION'' \<mapsto> AnyString ''eu''], None), Suc w))\<rparr>"

definition failingSource :: "(unit, nat) ConfigSource" where
  "failingSource =
     \<lparr>Name = ''failing'', Load = (\<lambda>w. ((Map.empty, Some (Error ''unreachable'')), Suc w))\<rparr>"

definition lateSource :: "(unit, nat) ConfigSource" where
  "lateSource =
     \<lparr>Name = ''late'', Load = (\<lambda>w. (([''REGION'' \<mapsto> AnyString ''us''], None), Suc w))\<rparr>"

text \<open>A store with two keys that no call has read yet; two goroutines are about to call \<^verbatim>\<open>Get\<close>.\<close>

definition twoKeys :: "(unit, unit) config" where
  "twoKeys =
     \<lparr>data = [''A'' \<mapsto> AnyString ''1'', ''B'' \<mapsto> AnyString ''2''], sources = [],
      cache = Map.empty\<rparr>"

definition twoGets :: "unit thread list \<times> (unit, unit) shared" where
  "twoGets =
     ([InGet ''A'' GetRLock AnyNil, InGet ''B'' GetRLock AnyNil],
      \<lparr>readers = 0, writer = False, store = twoKeys\<rparr>)"

section \<open>Set followed by Get\<close>

text \<open>
  C3. For every store, key and value (nil, a string, or any other dynamic value), the
  \<^verbatim>\<open>Get\<close> that directly follows \<^verbatim>\<open>Set(k, v)\<close> returns \<open>v\<close> itself: \<^verbatim>\<open>Set\<close> has written
  \<open>v\<close> into \<^verbatim>\<open>data\<close> and removed \<open>k\<close> from the cache, whatever the cache held before.
\<close>

theorem Set_then_Get:
  "fst (Get (Set c k v) k) = v
   \<and> data (Set c k v) k = Some v
   \<and> cache (Set c k v) k = None"
  by (simp add: Get_def Set_def)

section \<open>Keys that are absent\<close>

lemma Get_absent: "data c key = None \<Longrightarrow> cache c key = None \<Longrightarrow> Get c key = (AnyNil, c)"
  by (simp add: Get_def)

lemma GetString_absent:
  "data c key = None \<Longrightarrow> cache c key = None \<Longrightarrow> GetString sprintv c key = ('''', c)"
  by (simp add: GetString_def Get_absent)

text \<open>
  C8. For a key that neither \<^verbatim>\<open>data\<close> nor the cache holds, \<^verbatim>\<open>Get\<close> returns nil,
  \<^verbatim>\<open>GetString\<close> the empty string, \<^verbatim>\<open>GetInt\<close>, \<^verbatim>\<open>GetInt64\<close> and \<^verbatim>\<open>GetFloat64\<close> return 0,
  \<^verbatim>\<open>GetBool\<close> false, \<^verbatim>\<open>GetDuration\<close> the zero duration, \<^verbatim>\<open>GetStringSlice\<close> an empty
  slice, and \<^verbatim>\<open>Has\<close> false; none of them changes the store, and no parser is called.
\<close>

theorem absent_key_defaults:
  assumes "data c key = None" and "cache c key = None"
  shows "Get c key = (AnyNil, c)
       \<and> GetString sprintv c key = ('''', c)
       \<and> GetInt intSize sprintv c key = (0, c)
       \<and> GetInt64 sprintv c key = (0, c)
       \<and> GetFloat64 ParseFloat sprintv c key = (0, c)
       \<and> GetBool sprintv c key = (False, c)
       \<and> GetDuration ParseDuration sprintv c key = (0, c)
       \<and> GetStringSlice sprintv c key = ([], c)
       \<and> Has c key = False"
  using assms
  by (simp add: Get_absent GetString_absent GetInt_def GetInt64_def GetFloat64_def GetBool_def
      GetDuration_def GetStringSlice_def Has_def)

theorem absent_key_defaults_witness:
  "data emptyConfig ''PORT'' = None \<and> cache emptyConfig ''PORT'' = None
   \<and> Get emptyConfig ''PORT'' = (AnyNil, emptyConfig)
   \<and> GetString (\<lambda>_. ''()'') emptyConfig ''PORT'' = ('''', emptyConfig)
   \<and> GetInt 64 (\<lambda>_. ''()'') emptyConfig ''PORT'' = (0, emptyConfig)
   \<and> GetInt64 (\<lambda>_. ''()'') emptyConfig ''PORT'' = (0, emptyConfig)
   \<and> GetFloat64 (\<lambda>_. (1, None)) (\<lambda>_. ''()'') emptyConfig ''PORT'' = (0, emptyConfig)
   \<and> GetBool (\<lambda>_. ''()'') emptyConfig ''PORT'' = (False, emptyConfig)
   \<and> GetDuration (\<lambda>_. (1, None)) (\<lambda>_. ''()'') emptyConfig ''PORT'' = (0, emptyConfig)
   \<and> GetStringSlice (\<lambda>_. ''()'') emptyConfig ''PORT'' = ([], emptyConfig)
   \<and> Has emptyConfig ''PORT'' = False"
proof -
  have d: "data emptyConfig ''PORT'' = None" and c: "cache emptyConfig ''PORT'' = None"
    by (simp_all add: emptyConfig_def)
  from absent_key_defaults [OF d c, of "\<lambda>_. ''()''" 64 "\<lambda>_. (1, None)" "\<lambda>_. (1, None)"] d c
  show ?thesis by simp
qed

section \<open>The typed getters on strings their parsers reject\<close>

text \<open>
  C6, as the specification states it, fails: \<^verbatim>\<open>strconv.ParseBool\<close> does not fold case, so the
  spelling \<^verbatim>\<open>tRuE\<close> is a syntax error and \<^verbatim>\<open>GetBool\<close> returns false for it, not true.
\<close>

theorem GetBool_mixed_case_counterexample:
  "fst (GetString (\<lambda>_. ''()'') mixedCaseConfig ''DEBUG'') = ''tRuE''
   \<and> fst (GetBool (\<lambda>_. ''()'') mixedCaseConfig ''DEBUG'') = False"
  by (simp add: mixedCaseConfig_def GetBool_def GetString_def Get_def ParseBool_def)

text \<open>
  C6, amended. \<^verbatim>\<open>GetBool\<close> returns true exactly when the string form of the key is one of
  the six spellings \<^verbatim>\<open>1\<close>, \<^verbatim>\<open>t\<close>, \<^verbatim>\<open>T\<close>, \<^verbatim>\<open>TRUE\<close>, \<^verbatim>\<open>true\<close>, \<^verbatim>\<open>True\<close>. It returns false
  for the empty string, for the six spellings of false, and for every other string, among them
  the other casings of the tokens.
\<close>

theorem GetBool_spellings:
  "fst (GetBool sprintv c key)
     = (fst (GetString sprintv c key) \<in> set [''1'', ''t'', ''T'', ''TRUE'', ''true'', ''True''])"
  by (auto simp: GetBool_def ParseBool_def split: prod.splits)

lemma ParseUint_loop_syntax:
  "snd (ParseUint_loop maxVal cs n) = Some ErrSyntax \<Longrightarrow> fst (ParseUint_loop maxVal cs n) = 0"
  by (induction cs arbitrary: n) (auto simp: Let_def split: if_splits)

lemma ParseInt_syntax:
  "snd (ParseInt s bitSize) = Some ErrSyntax \<Longrightarrow> fst (ParseInt s bitSize) = 0"
  by (auto simp: ParseInt_def Let_def split: if_splits prod.splits)

lemma ParseInt_range:
  "snd (ParseInt s bitSize) = Some ErrRange \<Longrightarrow>
     fst (ParseInt s bitSize)
       = (if hd s = CHR ''-'' then - push_bit (bitSize - 1) 1 else push_bit (bitSize - 1) 1 - 1)"
  by (auto simp: ParseInt_def Let_def split: if_splits prod.splits)

lemma sint_min64: "sint (- push_bit 63 1 :: 64 word) = - (2 ^ 63)"
  by simp

lemma sint_max64: "sint (push_bit 63 1 - 1 :: 64 word) = 2 ^ 63 - 1"
  by simp

lemma sint_min32: "sint (- push_bit 31 1 :: 64 word) = - (2 ^ 31)"
  by simp

lemma sint_max32: "sint (push_bit 31 1 - 1 :: 64 word) = 2 ^ 31 - 1"
  by simp

lemma ParseInt64_range_sint:
  assumes "snd (ParseInt s 64) = Some ErrRange"
  shows "sint (fst (ParseInt s 64)) = (if hd s = CHR ''-'' then - (2 ^ 63) else 2 ^ 63 - 1)"
proof (cases "hd s = CHR ''-''")
  case True
  with ParseInt_range [OF assms] have "fst (ParseInt s 64) = - push_bit 63 1" by simp
  then have "sint (fst (ParseInt s 64)) = - (2 ^ 63)" by (simp only: sint_min64)
  with True show ?thesis by simp
next
  case False
  with ParseInt_range [OF assms] have "fst (ParseInt s 64) = push_bit 63 1 - 1" by simp
  then have "sint (fst (ParseInt s 64)) = 2 ^ 63 - 1" by (simp only: sint_max64)
  with False show ?thesis by simp
qed

lemma ParseInt32_range_sint:
  assumes "snd (ParseInt s 32) = Some ErrRange"
  shows "sint (fst (ParseInt s 32)) = (if hd s = CHR ''-'' then - (2 ^ 31) else 2 ^ 31 - 1)"
proof (cases "hd s = CHR ''-''")
  case True
  with ParseInt_range [OF assms] have "fst (ParseInt s 32) = - push_bit 31 1" by simp
  then have "sint (fst (ParseInt s 32)) = - (2 ^ 31)" by (simp only: sint_min32)
  with True show ?thesis by simp
next
  case False
  with ParseInt_range [OF assms] have "fst (ParseInt s 32) = push_bit 31 1 - 1" by simp
  then have "sint (fst (ParseInt s 32)) = 2 ^ 31 - 1" by (simp only: sint_max32)
  with False show ?thesis by simp
qed

lemma ParseInt_range_sint:
  assumes "snd (ParseInt s intSize) = Some ErrRange" and "intSize = 32 \<or> intSize = 64"
  shows "sint (fst (ParseInt s intSize))
           = (if hd s = CHR ''-'' then - (2 ^ (intSize - 1)) else 2 ^ (intSize - 1) - 1)"
  using assms(2)
proof
  assume n: "intSize = 32"
  with assms(1) have "snd (ParseInt s 32) = Some ErrRange" by simp
  then have "sint (fst (ParseInt s 32)) = (if hd s = CHR ''-'' then - (2 ^ 31) else 2 ^ 31 - 1)"
    by (rule ParseInt32_range_sint)
  with n show ?thesis by simp
next
  assume n: "intSize = 64"
  with assms(1) have "snd (ParseInt s 64) = Some ErrRange" by simp
  then have "sint (fst (ParseInt s 64)) = (if hd s = CHR ''-'' then - (2 ^ 63) else 2 ^ 63 - 1)"
    by (rule ParseInt64_range_sint)
  with n show ?thesis by simp
qed

lemma ParseFloat64_syntax:
  "snd (ParseFloat64 readFloat s) = Some ErrSyntax \<Longrightarrow> fst (ParseFloat64 readFloat s) = 0"
  by (cases "readFloat s") (simp_all add: ParseFloat64_def split: if_splits)

lemma ParseFloat64_range:
  "snd (ParseFloat64 readFloat s) = Some ErrRange \<Longrightarrow>
     fst (ParseFloat64 readFloat s) = (if hd s = CHR ''-'' then negInf else posInf)"
  by (cases "readFloat s") (simp_all add: ParseFloat64_def split: if_splits)

text \<open>
  C5, as the specification states it, fails on numerals out of range: \<^verbatim>\<open>strconv\<close> reports
  \<^verbatim>\<open>ErrRange\<close> for \<^verbatim>\<open>9223372036854775808\<close> and returns the largest value of the size
  beside it; the getters drop the error and return that value, not 0. So it is where
  \<^verbatim>\<open>int\<close> has 64 bits and where it has 32.
\<close>

theorem out_of_range_counterexample:
  "fst (GetString (\<lambda>_. ''()'') bigConfig ''MAX_CONN'') = ''9223372036854775808''
   \<and> snd (ParseInt ''9223372036854775808'' 64) = Some ErrRange
   \<and> snd (Atoi 64 ''9223372036854775808'') = Some ErrRange
   \<and> snd (Atoi 32 ''9223372036854775808'') = Some ErrRange
   \<and> sint (fst (GetInt64 (\<lambda>_. ''()'') bigConfig ''MAX_CONN'')) = 9223372036854775807
   \<and> sint (fst (GetInt 64 (\<lambda>_. ''()'') bigConfig ''MAX_CONN'')) = 9223372036854775807
   \<and> sint (fst (GetInt 32 (\<lambda>_. ''()'') bigConfig ''MAX_CONN'')) = 2147483647"
proof -
  have s: "GetString (\<lambda>_. ''()'') bigConfig ''MAX_CONN''
             = (''9223372036854775808'',
                bigConfig\<lparr>cache := [''MAX_CONN'' \<mapsto> AnyString ''9223372036854775808'']\<rparr>)"
    by (simp add: bigConfig_def GetString_def Get_def)
  have p: "ParseInt ''9223372036854775808'' 64 = (9223372036854775807, Some ErrRange)"
    by code_simp
  have q: "ParseInt ''9223372036854775808'' 32 = (2147483647, Some ErrRange)"
    by code_simp
  show ?thesis
    by (simp add: s p q GetInt64_def GetInt_def Atoi_def)
qed

text \<open>
  C5, amended. Let the string form \<open>s\<close> of a key be non-empty, and let \<^verbatim>\<open>int\<close> have 32 or
  64 bits. When the parser of a getter rejects \<open>s\<close> for its syntax, the getter returns 0:
  \<^verbatim>\<open>GetInt\<close> with \<^verbatim>\<open>strconv.Atoi\<close>, \<^verbatim>\<open>GetInt64\<close> with \<^verbatim>\<open>strconv.ParseInt\<close>, \<^verbatim>\<open>GetFloat64\<close>
  with \<^verbatim>\<open>strconv.ParseFloat\<close>. When the parser rejects \<open>s\<close> as out of range, the getter
  returns the value that \<^verbatim>\<open>strconv\<close> returns beside the error: \<^verbatim>\<open>GetInt\<close> the bound of the
  range of \<^verbatim>\<open>int\<close> on the side of the sign (\<open>- 2^31\<close> or \<open>- 2^63\<close> when \<open>s\<close> begins with a
  minus sign, \<open>2^31 - 1\<close> or \<open>2^63 - 1\<close> otherwise), \<^verbatim>\<open>GetInt64\<close> the bound \<open>- 2^63\<close> or
  \<open>2^63 - 1\<close> of its range, \<^verbatim>\<open>GetFloat64\<close> the infinity of the sign. In each case the store
  is left as \<^verbatim>\<open>GetString\<close> leaves it, and no getter surfaces the error: a getter returns a
  number and nothing else.
\<close>

theorem numeric_getters_on_parse_failure:
  assumes "GetString sprintv c key = (s, c')" and "s \<noteq> []"
    and "intSize = 32 \<or> intSize = 64"
  shows "(snd (Atoi intSize s) = Some ErrSyntax \<longrightarrow> GetInt intSize sprintv c key = (0, c'))
       \<and> (snd (ParseInt s 64) = Some ErrSyntax \<longrightarrow> GetInt64 sprintv c key = (0, c'))
       \<and> (snd (ParseFloat64 readFloat s) = Some ErrSyntax \<longrightarrow>
            GetFloat64 (ParseFloat64 readFloat) sprintv c key = (0, c'))
       \<and> (snd (Atoi intSize s) = Some ErrRange \<longrightarrow>
            snd (GetInt intSize sprintv c key) = c'
            \<and> sint (fst (GetInt intSize sprintv c key))
                = (if hd s = CHR ''-'' then - (2 ^ (intSize - 1)) else 2 ^ (intSize - 1) - 1))
       \<and> (snd (ParseInt s 64) = Some ErrRange \<longrightarrow>
            snd (GetInt64 sprintv c key) = c'
            \<and> sint (fst (GetInt64 sprintv c key))
                = (if hd s = CHR ''-'' then - (2 ^ 63) else 2 ^ 63 - 1))
       \<and> (snd (ParseFloat64 readFloat s) = Some ErrRange \<longrightarrow>
            GetFloat64 (ParseFloat64 readFloat) sprintv c key
              = (if hd s = CHR ''-'' then negInf else posInf, c'))"
proof -
  have i: "GetInt intSize sprintv c key = (fst (ParseInt s intSize), c')"
    using assms(1,2) by (simp add: GetInt_def Atoi_def)
  have g: "GetInt64 sprintv c key = (fst (ParseInt s 64), c')"
    using assms(1,2) by (simp add: GetInt64_def)
  have f: "GetFloat64 (ParseFloat64 readFloat) sprintv c key = (fst (ParseFloat64 readFloat s), c')"
    using assms(1,2) by (simp add: GetFloat64_def)
  have 1: "snd (Atoi intSize s) = Some ErrSyntax \<longrightarrow> GetInt intSize sprintv c key = (0, c')"
    using ParseInt_syntax [of s intSize] by (simp add: i Atoi_def)
  have 2: "snd (ParseInt s 64) = Some ErrSyntax \<longrightarrow> GetInt64 sprintv c key = (0, c')"
    using ParseInt_syntax [of s 64] by (simp add: g)
  have 3: "snd (ParseFloat64 readFloat s) = Some ErrSyntax \<longrightarrow>
             GetFloat64 (ParseFloat64 readFloat) sprintv c key = (0, c')"
    using ParseFloat64_syntax [of readFloat s] by (simp add: f)
  have 4: "snd (Atoi intSize s) = Some ErrRange \<longrightarrow>
             snd (GetInt intSize sprintv c key) = c'
             \<and> sint (fst (GetInt intSize sprintv c key))
                 = (if hd s = CHR ''-'' then - (2 ^ (intSize - 1)) else 2 ^ (intSize - 1) - 1)"
  proof
    assume "snd (Atoi intSize s) = Some ErrRange"
    then have "snd (ParseInt s intSize) = Some ErrRange" by (simp add: Atoi_def)
    then have "sint (fst (ParseInt s intSize))
                 = (if hd s = CHR ''-'' then - (2 ^ (intSize - 1)) else 2 ^ (intSize - 1) - 1)"
      using assms(3) by (rule ParseInt_range_sint)
    then show "snd (GetInt intSize sprintv c key) = c'
             \<and> sint (fst (GetInt intSize sprintv c key))
                 = (if hd s = CHR ''-'' then - (2 ^ (intSize - 1)) else 2 ^ (intSize - 1) - 1)"
      by (simp only: i fst_conv snd_conv)
  qed
  have 5: "snd (ParseInt s 64) = Some ErrRange \<longrightarrow>
             snd (GetInt64 sprintv c key) = c'
             \<and> sint (fst (GetInt64 sprintv c key))
                 = (if hd s = CHR ''-'' then - (2 ^ 63) else 2 ^ 63 - 1)"
  proof
    assume "snd (ParseInt s 64) = Some ErrRange"
    then have "sint (fst (ParseInt s 64)) = (if hd s = CHR ''-'' then - (2 ^ 63) else 2 ^ 63 - 1)"
      by (rule ParseInt64_range_sint)
    then show "snd (GetInt64 sprintv c key) = c'
             \<and> sint (fst (GetInt64 sprintv c key))
                 = (if hd s = CHR ''-'' then - (2 ^ 63) else 2 ^ 63 - 1)"
      by (simp only: g fst_conv snd_conv)
  qed
  have 6: "snd (ParseFloat64 readFloat s) = Some ErrRange \<longrightarrow>
             GetFloat64 (ParseFloat64 readFloat) sprintv c key
               = (if hd s = CHR ''-'' then negInf else posInf, c')"
    using ParseFloat64_range [of readFloat s] by (simp add: f)
  show ?thesis by (intro conjI 1 2 3 4 5 6)
qed

theorem numeric_getters_on_parse_failure_witness:
  "GetString (\<lambda>_. ''()'') bigConfig ''PORT''
     = (''80a'', bigConfig\<lparr>cache := [''PORT'' \<mapsto> AnyString ''80a'']\<rparr>)
   \<and> snd (Atoi 64 ''80a'') = Some ErrSyntax
   \<and> snd (ParseInt ''80a'' 64) = Some ErrSyntax
   \<and> snd (ParseFloat64 exampleReading ''80a'') = Some ErrSyntax
   \<and> fst (GetInt 64 (\<lambda>_. ''()'') bigConfig ''PORT'') = 0
   \<and> fst (GetInt64 (\<lambda>_. ''()'') bigConfig ''PORT'') = 0
   \<and> fst (GetFloat64 (ParseFloat64 exampleReading) (\<lambda>_. ''()'') bigConfig ''PORT'') = 0
   \<and> snd (Atoi 32 ''9223372036854775808'') = Some ErrRange
   \<and> snd (ParseInt ''9223372036854775808'' 64) = Some ErrRange
   \<and> sint (fst (GetInt 32 (\<lambda>_. ''()'') bigConfig ''MAX_CONN'')) = 2147483647
   \<and> sint (fst (GetInt64 (\<lambda>_. ''()'') bigConfig ''MAX_CONN'')) = 9223372036854775807
   \<and> snd (ParseFloat64 exampleReading ''1e999'') = Some ErrRange
   \<and> fst (GetFloat64 (ParseFloat64 exampleReading) (\<lambda>_. ''()'') overflowConfig ''RATE'') = posInf"
proof -
  have s1: "GetString (\<lambda>_. ''()'') bigConfig ''PORT''
     = (''80a'', bigConfig\<lparr>cache := [''PORT'' \<mapsto> AnyString ''80a'']\<rparr>)"
    by (simp add: bigConfig_def GetString_def Get_def)
  have s2: "GetString (\<lambda>_. ''()'') bigConfig ''MAX_CONN''
     = (''9223372036854775808'',
        bigConfig\<lparr>cache := [''MAX_CONN'' \<mapsto> AnyString ''9223372036854775808'']\<rparr>)"
    by (simp add: bigConfig_def GetString_def Get_def)
  have s3: "GetString (\<lambda>_. ''()'') overflowConfig ''RATE''
     = (''1e999'', overflowConfig\<lparr>cache := [''RATE'' \<mapsto> AnyString ''1e999'']\<rparr>)"
    by (simp add: overflowConfig_def GetString_def Get_def)
  have n1: "''80a'' \<noteq> []" by simp
  have n2: "''9223372036854775808'' \<noteq> []" by simp
  have n3: "''1e999'' \<noteq> []" by simp
  have z64: "(64 :: nat) = 32 \<or> (64 :: nat) = 64" by simp
  have z32: "(32 :: nat) = 32 \<or> (32 :: nat) = 64" by simp
  have p1: "snd (ParseInt ''80a'' 64) = Some ErrSyntax" by code_simp
  have a1: "snd (Atoi 64 ''80a'') = Some ErrSyntax" by (simp only: Atoi_def p1)
  have f1: "snd (ParseFloat64 exampleReading ''80a'') = Some ErrSyntax"
    by (simp add: ParseFloat64_def exampleReading_def)
  have p2: "snd (ParseInt ''9223372036854775808'' 64) = Some ErrRange" by code_simp
  have q2: "snd (ParseInt ''9223372036854775808'' 32) = Some ErrRange" by code_simp
  have a2: "snd (Atoi 32 ''9223372036854775808'') = Some ErrRange" by (simp only: Atoi_def q2)
  have f3: "snd (ParseFloat64 exampleReading ''1e999'') = Some ErrRange"
    by (simp add: ParseFloat64_def exampleReading_def)
  note t1 = numeric_getters_on_parse_failure [where readFloat = exampleReading, OF s1 n1 z64]
  note t2 = numeric_getters_on_parse_failure [where readFloat = exampleReading, OF s2 n2 z32]
  note t3 = numeric_getters_on_parse_failure [where readFloat = exampleReading, OF s3 n3 z64]
  have i1: "fst (GetInt 64 (\<lambda>_. ''()'') bigConfig ''PORT'') = 0"
    using t1 [THEN conjunct1] a1 by simp
  have g1: "fst (GetInt64 (\<lambda>_. ''()'') bigConfig ''PORT'') = 0"
    using t1 [THEN conjunct2, THEN conjunct1] p1 by simp
  have h1: "fst (GetFloat64 (ParseFloat64 exampleReading) (\<lambda>_. ''()'') bigConfig ''PORT'') = 0"
    using t1 [THEN conjunct2, THEN conjunct2, THEN conjunct1] f1 by simp
  have i2: "sint (fst (GetInt 32 (\<lambda>_. ''()'') bigConfig ''MAX_CONN'')) = 2147483647"
    using t2 [THEN conjunct2, THEN conjunct2, THEN conjunct2, THEN conjunct1] a2 by simp
  have g2: "sint (fst (GetInt64 (\<lambda>_. ''()'') bigConfig ''MAX_CONN'')) = 9223372036854775807"
    using t2 [THEN conjunct2, THEN conjunct2, THEN conjunct2, THEN conjunct2, THEN conjunct1] p2
    by simp
  have h3: "fst (GetFloat64 (ParseFloat64 exampleReading) (\<lambda>_. ''()'') overflowConfig ''RATE'') = posInf"
    using t3 [THEN conjunct2, THEN conjunct2, THEN conjunct2, THEN conjunct2, THEN conjunct2] f3
    by simp
  show ?thesis by (intro conjI s1 a1 p1 f1 i1 g1 h1 a2 p2 i2 g2 f3 h3)
qed

section \<open>Lines of an environment file\<close>

lemma takeWhile_sep: "sep \<notin> set a \<Longrightarrow> takeWhile (\<lambda>c. c \<noteq> sep) (a @ sep # b) = a"
  by (induction a) auto

lemma dropWhile_sep: "sep \<notin> set a \<Longrightarrow> dropWhile (\<lambda>c. c \<noteq> sep) (a @ sep # b) = sep # b"
  by (induction a) auto

lemma SplitN2_first:
  "sep \<notin> set a \<Longrightarrow> SplitN2 (a @ sep # b) sep = [a, b]"
  by (simp add: SplitN2_def takeWhile_sep dropWhile_sep)

lemma hd_of_prefix: "xs = v @ r \<Longrightarrow> v \<noteq> [] \<Longrightarrow> hd v = hd xs"
  by (cases v) auto

lemma TrimRight_shape:
  "xs = rev (dropWhile P (rev xs)) @ rev (takeWhile P (rev xs))"
proof -
  have "rev xs = takeWhile P (rev xs) @ dropWhile P (rev xs)" by simp
  then have "rev (rev xs) = rev (takeWhile P (rev xs) @ dropWhile P (rev xs))" by (rule arg_cong)
  then show ?thesis by (simp only: rev_rev_ident rev_append)
qed

lemma TrimRight_last:
  "rev (dropWhile P (rev xs)) \<noteq> [] \<Longrightarrow> \<not> P (last (rev (dropWhile P (rev xs))))"
  by (simp add: last_rev hd_dropWhile)

lemma TrimRight_hd:
  assumes "rev (dropWhile P (rev xs)) \<noteq> []"
  shows "hd (rev (dropWhile P (rev xs))) = hd xs"
  using TrimRight_shape [of xs P] assms by (rule hd_of_prefix)

lemma Trim_shape:
  "\<exists>l r. s = l @ Trim s cutset @ r \<and> set l \<subseteq> set cutset \<and> set r \<subseteq> set cutset
         \<and> (Trim s cutset = [] \<or> (hd (Trim s cutset) \<notin> set cutset \<and> last (Trim s cutset) \<notin> set cutset))"
proof -
  define P where "P = (\<lambda>c. c \<in> set cutset)"
  define m where "m = dropWhile P s"
  define v where "v = rev (dropWhile P (rev m))"
  define r where "r = rev (takeWhile P (rev m))"
  have t: "Trim s cutset = v" by (simp add: Trim_def v_def m_def P_def)
  have mv: "m = v @ r" unfolding v_def r_def by (rule TrimRight_shape)
  have "s = takeWhile P s @ m" by (simp add: m_def)
  with mv have s: "s = takeWhile P s @ v @ r" by simp
  have l: "set (takeWhile P s) \<subseteq> set cutset" by (auto simp: P_def dest: set_takeWhileD)
  have rr: "set r \<subseteq> set cutset" by (auto simp: r_def P_def dest: set_takeWhileD)
  have e: "v = [] \<or> (hd v \<notin> set cutset \<and> last v \<notin> set cutset)"
  proof (cases "v = []")
    case True
    then show ?thesis by (rule disjI1)
  next
    case False
    then have la: "\<not> P (last v)" unfolding v_def by (rule TrimRight_last)
    from False have hv: "hd v = hd m" unfolding v_def by (rule TrimRight_hd)
    from False mv have "m \<noteq> []" by simp
    then have "\<not> P (hd m)" unfolding m_def by (rule hd_dropWhile)
    with hv la show ?thesis by (simp add: P_def)
  qed
  show ?thesis unfolding t
  proof (intro exI conjI)
    show "s = takeWhile P s @ v @ r" by (rule s)
    show "set (takeWhile P s) \<subseteq> set cutset" by (rule l)
    show "set r \<subseteq> set cutset" by (rule rr)
    show "v = [] \<or> hd v \<notin> set cutset \<and> last v \<notin> set cutset" by (rule e)
  qed
qed

text \<open>
  C7, amended. For a line that, once trimmed, is not a comment and has a first \<^verbatim>\<open>=\<close> with
  \<open>a\<close> before it and \<open>b\<close> after it, the loader stores the trimmed \<open>a\<close> as key, and as
  value the trimmed \<open>b\<close> without all of its leading and all of its trailing quote
  characters, single or double, matching or not: the trimmed \<open>b\<close> is \<open>l @ v @ r\<close> with
  only quote characters in \<open>l\<close> and \<open>r\<close>, and the stored \<open>v\<close> is empty or neither begins
  nor ends with a quote character.
\<close>

theorem envLine_value:
  assumes "TrimSpace text = a @ CHR ''='' # b"
    and "CHR ''='' \<notin> set a"
    and "\<not> HasPrefix (TrimSpace text) ''#''"
  shows "\<exists>l v r. envLine text = Some (TrimSpace a, v)
           \<and> TrimSpace b = l @ v @ r
           \<and> set l \<subseteq> {CHR 0x22, CHR 0x27} \<and> set r \<subseteq> {CHR 0x22, CHR 0x27}
           \<and> (v = [] \<or> (hd v \<notin> {CHR 0x22, CHR 0x27} \<and> last v \<notin> {CHR 0x22, CHR 0x27}))"
proof -
  have e: "envLine text = Some (TrimSpace a, Trim (TrimSpace b) [CHR 0x22, CHR 0x27])"
    using assms by (simp add: envLine_def Let_def SplitN2_first)
  from Trim_shape [of "TrimSpace b" "[CHR 0x22, CHR 0x27]"]
  obtain l r where
    "TrimSpace b = l @ Trim (TrimSpace b) [CHR 0x22, CHR 0x27] @ r"
    "set l \<subseteq> set [CHR 0x22, CHR 0x27]" "set r \<subseteq> set [CHR 0x22, CHR 0x27]"
    "Trim (TrimSpace b) [CHR 0x22, CHR 0x27] = []
       \<or> (hd (Trim (TrimSpace b) [CHR 0x22, CHR 0x27]) \<notin> set [CHR 0x22, CHR 0x27]
          \<and> last (Trim (TrimSpace b) [CHR 0x22, CHR 0x27]) \<notin> set [CHR 0x22, CHR 0x27])"
    by (elim exE conjE)
  then have "envLine text = Some (TrimSpace a, Trim (TrimSpace b) [CHR 0x22, CHR 0x27])
           \<and> TrimSpace b = l @ Trim (TrimSpace b) [CHR 0x22, CHR 0x27] @ r
           \<and> set l \<subseteq> {CHR 0x22, CHR 0x27} \<and> set r \<subseteq> {CHR 0x22, CHR 0x27}
           \<and> (Trim (TrimSpace b) [CHR 0x22, CHR 0x27] = []
               \<or> (hd (Trim (TrimSpace b) [CHR 0x22, CHR 0x27]) \<notin> {CHR 0x22, CHR 0x27}
                  \<and> last (Trim (TrimSpace b) [CHR 0x22, CHR 0x27]) \<notin> {CHR 0x22, CHR 0x27}))"
    using e by simp
  then show ?thesis by (intro exI)
qed

text \<open>
  C7, as the specification states it, fails: of a value wrapped in two layers of quotes both layers
  are removed. The lines \<^verbatim>\<open>KEY=""x""\<close> and \<^verbatim>\<open>KEY='"x"'\<close> both store \<^verbatim>\<open>x\<close>, not
  \<^verbatim>\<open>"x"\<close>.
\<close>

theorem envLine_two_layers_counterexample:
  "envLine (''KEY='' @ [CHR 0x22, CHR 0x22, CHR ''x'', CHR 0x22, CHR 0x22]) = Some (''KEY'', ''x'')
   \<and> envLine (''KEY='' @ [CHR 0x27, CHR 0x22, CHR ''x'', CHR 0x22, CHR 0x27]) = Some (''KEY'', ''x'')"
  by code_simp

theorem envLine_value_witness:
  "TrimSpace (''  NAME = '' @ [CHR 0x22, CHR 0x27] @ ''my app'' @ [CHR 0x27, CHR 0x22, CHR 0x22])
      = ''NAME '' @ CHR ''='' # ('' '' @ [CHR 0x22, CHR 0x27] @ ''my app'' @ [CHR 0x27, CHR 0x22, CHR 0x22])
   \<and> CHR ''='' \<notin> set ''NAME ''
   \<and> \<not> HasPrefix (TrimSpace (''  NAME = '' @ [CHR 0x22, CHR 0x27] @ ''my app'' @ [CHR 0x27, CHR 0x22, CHR 0x22])) ''#''
   \<and> (\<exists>l v r. envLine (''  NAME = '' @ [CHR 0x22, CHR 0x27] @ ''my app'' @ [CHR 0x27, CHR 0x22, CHR 0x22])
                 = Some (TrimSpace ''NAME '', v)
           \<and> TrimSpace ('' '' @ [CHR 0x22, CHR 0x27] @ ''my app'' @ [CHR 0x27, CHR 0x22, CHR 0x22]) = l @ v @ r
           \<and> set l \<subseteq> {CHR 0x22, CHR 0x27} \<and> set r \<subseteq> {CHR 0x22, CHR 0x27}
           \<and> (v = [] \<or> (hd v \<notin> {CHR 0x22, CHR 0x27} \<and> last v \<notin> {CHR 0x22, CHR 0x27})))
   \<and> envLine (''  NAME = '' @ [CHR 0x22, CHR 0x27] @ ''my app'' @ [CHR 0x27, CHR 0x22, CHR 0x22])
       = Some (''NAME'', ''my app'')"
proof -
  let ?text = "''  NAME = '' @ [CHR 0x22, CHR 0x27] @ ''my app'' @ [CHR 0x27, CHR 0x22, CHR 0x22]"
  let ?b = "'' '' @ [CHR 0x22, CHR 0x27] @ ''my app'' @ [CHR 0x27, CHR 0x22, CHR 0x22]"
  have t: "TrimSpace ?text = ''NAME '' @ CHR ''='' # ?b" by code_simp
  have n: "CHR ''='' \<notin> set ''NAME ''" by simp
  have h: "\<not> HasPrefix (TrimSpace ?text) ''#''" by code_simp
  have v: "envLine ?text = Some (''NAME'', ''my app'')" by code_simp
  have ex: "\<exists>l v r. envLine ?text = Some (TrimSpace ''NAME '', v)
           \<and> TrimSpace ?b = l @ v @ r
           \<and> set l \<subseteq> {CHR 0x22, CHR 0x27} \<and> set r \<subseteq> {CHR 0x22, CHR 0x27}
           \<and> (v = [] \<or> (hd v \<notin> {CHR 0x22, CHR 0x27} \<and> last v \<notin> {CHR 0x22, CHR 0x27}))"
    by (rule envLine_value [OF t n h])
  show ?thesis by (intro conjI t n h ex v)
qed

section \<open>A key that is set to nil\<close>

text \<open>
  C10, amended. After \<^verbatim>\<open>Set(k, nil)\<close>, \<^verbatim>\<open>Has(k)\<close> is true, \<^verbatim>\<open>Get(k)\<close> returns nil,
  \<^verbatim>\<open>GetString(k)\<close> the empty string, and every typed getter called on \<open>k\<close> returns
  the zero value it returns for an absent key; \<^verbatim>\<open>GetStringMap(k)\<close> is as before the
  \<^verbatim>\<open>Set\<close>. Besides \<^verbatim>\<open>Has\<close>, two more operations show the entry: \<^verbatim>\<open>All\<close> has the key
  with the value nil, and so has \<^verbatim>\<open>GetStringMap(p)\<close> for a key \<open>p.m\<close>.
\<close>

theorem nil_value_and_absent_key:
  "Has (Set c k AnyNil) k
   \<and> fst (Get (Set c k AnyNil) k) = AnyNil
   \<and> fst (GetString sprintv (Set c k AnyNil) k) = ''''
   \<and> fst (GetInt intSize sprintv (Set c k AnyNil) k) = 0
   \<and> fst (GetInt64 sprintv (Set c k AnyNil) k) = 0
   \<and> fst (GetFloat64 ParseFloat sprintv (Set c k AnyNil) k) = 0
   \<and> fst (GetBool sprintv (Set c k AnyNil) k) = False
   \<and> fst (GetDuration ParseDuration sprintv (Set c k AnyNil) k) = 0
   \<and> fst (GetStringSlice sprintv (Set c k AnyNil) k) = []
   \<and> GetStringMap (Set c k AnyNil) k = GetStringMap c k
   \<and> All (Set c k AnyNil) k = Some AnyNil
   \<and> GetStringMap (Set c (p @ ''.'' @ m) AnyNil) p m = Some AnyNil"
proof -
  have g: "Get (Set c k AnyNil) k = (AnyNil, (Set c k AnyNil)\<lparr>cache := (cache (Set c k AnyNil))(k \<mapsto> AnyNil)\<rparr>)"
    by (simp add: Get_def Set_def)
  have s: "GetString sprintv (Set c k AnyNil) k
             = ([], (Set c k AnyNil)\<lparr>cache := (cache (Set c k AnyNil))(k \<mapsto> AnyNil)\<rparr>)"
    by (simp add: GetString_def g)
  have m: "GetStringMap (Set c k AnyNil) k = GetStringMap c k"
    by (simp add: GetStringMap_def Set_def fun_eq_iff)
  have h: "Has (Set c k AnyNil) k" and a: "All (Set c k AnyNil) k = Some AnyNil"
    by (simp_all add: Has_def All_def Set_def)
  have pm: "GetStringMap (Set c (p @ ''.'' @ m) AnyNil) p m = Some AnyNil"
    by (simp add: Set_def GetStringMap_def Let_def)
  have t: "fst (GetInt intSize sprintv (Set c k AnyNil) k) = 0
      \<and> fst (GetInt64 sprintv (Set c k AnyNil) k) = 0
      \<and> fst (GetFloat64 ParseFloat sprintv (Set c k AnyNil) k) = 0
      \<and> fst (GetBool sprintv (Set c k AnyNil) k) = False
      \<and> fst (GetDuration ParseDuration sprintv (Set c k AnyNil) k) = 0
      \<and> fst (GetStringSlice sprintv (Set c k AnyNil) k) = []"
    by (simp add: s GetInt_def GetInt64_def GetFloat64_def GetBool_def GetDuration_def
        GetStringSlice_def)
  have g1: "fst (Get (Set c k AnyNil) k) = AnyNil" by (simp add: g)
  have s1: "fst (GetString sprintv (Set c k AnyNil) k) = []" by (simp add: s)
  from h g1 s1 t m a pm show ?thesis by (intro conjI) simp_all
qed

text \<open>
  C10, as the specification states it, fails in its last part: \<^verbatim>\<open>Has\<close> is not the only operation
  that tells a key set to nil from an absent key. On the empty store \<^verbatim>\<open>All()\<close> and
  \<^verbatim>\<open>GetStringMap("db")\<close> have no entry for \<^verbatim>\<open>db.host\<close>; after \<^verbatim>\<open>Set("db.host", nil)\<close>
  both have one.
\<close>

theorem nil_value_seen_by_All_counterexample:
  "All emptyConfig ''db.host'' = None
   \<and> All (Set emptyConfig ''db.host'' AnyNil) ''db.host'' = Some AnyNil
   \<and> GetStringMap emptyConfig ''db'' ''host'' = None
   \<and> GetStringMap (Set emptyConfig ''db.host'' AnyNil) ''db'' ''host'' = Some AnyNil"
  by (simp add: emptyConfig_def All_def Set_def GetStringMap_def)

section \<open>Precedence of the layers\<close>

lemma fold_upd_add_gen:
  "fold (\<lambda>x d. case g x of None \<Rightarrow> d | Some (k, v) \<Rightarrow> d(k \<mapsto> v)) xs (d ++ e)
     = d ++ fold (\<lambda>x d. case g x of None \<Rightarrow> d | Some (k, v) \<Rightarrow> d(k \<mapsto> v)) xs e"
proof (induction xs arbitrary: e)
  case Nil
  show ?case by simp
next
  case (Cons x xs)
  let ?F = "\<lambda>x d. case g x of None \<Rightarrow> d | Some (k, v) \<Rightarrow> d(k \<mapsto> v)"
  show ?case
  proof (cases "g x")
    case None
    with Cons show ?thesis by simp
  next
    case (Some kv)
    obtain k v where kv: "kv = (k, v)" by (cases kv)
    have 1: "fold ?F (x # xs) (d ++ e) = fold ?F xs ((d ++ e)(k \<mapsto> v))"
      using Some kv by simp
    have 2: "(d ++ e)(k \<mapsto> v) = d ++ e(k \<mapsto> v)" by (simp only: map_add_upd)
    have 3: "fold ?F xs (d ++ e(k \<mapsto> v)) = d ++ fold ?F xs (e(k \<mapsto> v))" by (rule Cons)
    have 4: "fold ?F (x # xs) e = fold ?F xs (e(k \<mapsto> v))" using Some kv by simp
    show ?thesis by (simp only: 1 2 3 4)
  qed
qed

lemma fold_upd_add:
  "fold (\<lambda>x d. case g x of None \<Rightarrow> d | Some (k, v) \<Rightarrow> d(k \<mapsto> v)) xs d
     = d ++ fold (\<lambda>x d. case g x of None \<Rightarrow> d | Some (k, v) \<Rightarrow> d(k \<mapsto> v)) xs Map.empty"
  using fold_upd_add_gen [of g xs d Map.empty] by simp

lemma fold_config_data:
  "fold (\<lambda>x c. case g x of None \<Rightarrow> c | Some (k, v) \<Rightarrow> c\<lparr>data := (data c)(k \<mapsto> v)\<rparr>) xs c
     = c\<lparr>data := fold (\<lambda>x d. case g x of None \<Rightarrow> d | Some (k, v) \<Rightarrow> d(k \<mapsto> v)) xs (data c)\<rparr>"
  by (induction xs arbitrary: c) (auto split: option.splits)

lemma envFile_step:
  "(\<lambda>text d. case envLine text of None \<Rightarrow> d | Some (key, val) \<Rightarrow> d(key \<mapsto> AnyString val))
   = (\<lambda>text d. case map_option (\<lambda>(k, v). (k, AnyString v)) (envLine text) of
                  None \<Rightarrow> d | Some (k, v) \<Rightarrow> d(k \<mapsto> v))"
  by (auto simp: fun_eq_iff split: option.splits)

lemma envFile_step_config:
  "(\<lambda>text c. case envLine text of
                 None \<Rightarrow> c
               | Some (key, val) \<Rightarrow> c\<lparr>data := (data c)(key \<mapsto> AnyString val)\<rparr>)
   = (\<lambda>text c. case map_option (\<lambda>(k, v). (k, AnyString v)) (envLine text) of
                  None \<Rightarrow> c | Some (k, v) \<Rightarrow> c\<lparr>data := (data c)(k \<mapsto> v)\<rparr>)"
  by (auto simp: fun_eq_iff split: option.splits)

lemma loadEnvFile_layer:
  "loadEnvFile os c filename = c\<lparr>data := data c ++ fileLayer os filename\<rparr>"
proof (cases "Lines os filename")
  case None
  then show ?thesis by (simp add: loadEnvFile_def fileLayer_def)
next
  case (Some lines)
  show ?thesis
    unfolding loadEnvFile_def fileLayer_def Some option.case envFile_step envFile_step_config
    by (subst fold_config_data, subst fold_upd_add) (rule refl)
qed

lemma environ_step:
  "(\<lambda>env d. let parts = SplitN2 env CHR ''='' in
              if length parts = 2 then d(parts ! 0 \<mapsto> AnyString (parts ! 1)) else d)
   = (\<lambda>env d. case (if length (SplitN2 env CHR ''='') = 2
                     then Some (SplitN2 env CHR ''='' ! 0, AnyString (SplitN2 env CHR ''='' ! 1))
                     else None) of
                 None \<Rightarrow> d | Some (k, v) \<Rightarrow> d(k \<mapsto> v))"
  by (simp add: fun_eq_iff Let_def)

lemma environ_step_config:
  "(\<lambda>env c. let parts = SplitN2 env CHR ''='' in
              if length parts = 2 then c\<lparr>data := (data c)(parts ! 0 \<mapsto> AnyString (parts ! 1))\<rparr> else c)
   = (\<lambda>env c. case (if length (SplitN2 env CHR ''='') = 2
                     then Some (SplitN2 env CHR ''='' ! 0, AnyString (SplitN2 env CHR ''='' ! 1))
                     else None) of
                 None \<Rightarrow> c | Some (k, v) \<Rightarrow> c\<lparr>data := (data c)(k \<mapsto> v)\<rparr>)"
  by (simp add: fun_eq_iff Let_def)

lemma loadSystemEnv_layer:
  "loadSystemEnv os c = c\<lparr>data := data c ++ environLayer os\<rparr>"
  unfolding loadSystemEnv_def environLayer_def environ_step environ_step_config
  by (subst fold_config_data, subst fold_upd_add) (rule refl)

lemma loadEnvFiles_layers:
  "loadEnvFiles os c
     = c\<lparr>data := data c ++ fileLayer os ''.env'' ++ fileLayer os ''.local.env''
                   ++ fileLayer os (envFileName os)\<rparr>"
  by (simp add: loadEnvFiles_def Let_def loadEnvFile_layer envFileName_def)


lemma loaderLayers_add:
  "layered (xs @ [fileLayer os ''.env'' ++ fileLayer os ''.local.env''
                    ++ fileLayer os (envFileName os) ++ environLayer os]) k
     = layered (xs @ loaderLayers os) k"
  by (induction xs) (auto simp: loaderLayers_def map_add_def split: option.splits)

lemma loaded_data:
  "loadSystemEnv os (loadEnvFiles os (c\<lparr>cache := Map.empty, data := Map.empty\<rparr>))
     = c\<lparr>cache := Map.empty,
         data := fileLayer os ''.env'' ++ fileLayer os ''.local.env''
                   ++ fileLayer os (envFileName os) ++ environLayer os\<rparr>"
  by (simp add: loadEnvFiles_layers loadSystemEnv_layer)

lemma New_data:
  "New os = \<lparr>data = fileLayer os ''.env'' ++ fileLayer os ''.local.env''
                   ++ fileLayer os (envFileName os) ++ environLayer os,
             sources = [], cache = Map.empty\<rparr>"
  by (simp add: New_def Let_def loadEnvFiles_layers loadSystemEnv_layer)

lemma New_layered: "data (New os) k = layered (loaderLayers os) k"
  by (simp add: New_data loaderLayers_def map_add_def split: option.splits)

lemma Reload_unfold:
  "Reload os c w
     = Reload_sources (sources c)
         (c\<lparr>cache := Map.empty,
            data := fileLayer os ''.env'' ++ fileLayer os ''.local.env''
                      ++ fileLayer os (envFileName os) ++ environLayer os\<rparr>) w"
  by (simp add: Reload_def Let_def loadEnvFiles_layers loadSystemEnv_layer)

lemma Reload_sources_merged:
  "data (fst (snd (Reload_sources srcs c w))) k = layered (rev (mergedMaps srcs w) @ [data c]) k"
proof (induction srcs arbitrary: c w)
  case Nil
  show ?case by (simp split: option.splits)
next
  case (Cons s srcs)
  obtain m e w' where l: "Load s w = ((m, e), w')" by (metis prod.exhaust)
  show ?case
  proof (cases e)
    case None
    have app: "\<And>xs ys. layered (xs @ [m, ys]) k = layered (xs @ [ys ++ m]) k"
    proof -
      fix xs :: "(string \<rightharpoonup> 'a any) list" and ys
      show "layered (xs @ [m, ys]) k = layered (xs @ [ys ++ m]) k"
        by (induction xs) (auto simp: map_add_def split: option.splits)
    qed
    from None l Cons.IH [of "c\<lparr>data := data c ++ m\<rparr>" w'] show ?thesis
      by (simp add: app)
  next
    case (Some err)
    with l show ?thesis by (simp split: option.splits)
  qed
qed

lemma Reload_sources_other_fields:
  "cache (fst (snd (Reload_sources srcs c w))) = cache c
   \<and> sources (fst (snd (Reload_sources srcs c w))) = sources c"
  by (induction srcs arbitrary: c w) (auto split: prod.splits option.splits)

lemma Reload_sources_ok_length:
  "fst (Reload_sources srcs c w) = None \<Longrightarrow> length (mergedMaps srcs w) = length srcs"
  by (induction srcs arbitrary: c w) (auto split: prod.splits option.splits)

lemma layered_append:
  "layered (xs @ ys) k = (case layered xs k of Some v \<Rightarrow> Some v | None \<Rightarrow> layered ys k)"
  by (induction xs) (auto split: option.splits)

lemma Reload_data:
  "data (fst (snd (Reload os c w))) k
     = layered (rev (mergedMaps (sources c) w) @ loaderLayers os) k"
  unfolding Reload_unfold Reload_sources_merged by (simp add: loaderLayers_add)

text \<open>
  C1. After \<^verbatim>\<open>New\<close> the value of every key in \<^verbatim>\<open>data\<close> is the one of the first layer that
  has the key in the order: process environment, \<^verbatim>\<open>.<APP_ENV>.env\<close> (with \<^verbatim>\<open>dev\<close> for an
  unset or empty \<^verbatim>\<open>APP_ENV\<close>), \<^verbatim>\<open>.local.env\<close>, \<^verbatim>\<open>.env\<close>. After \<^verbatim>\<open>Reload\<close> it is the one of
  the first layer that has the key in the order: the maps of the merged sources, the source
  registered last first, and then the same four layers. When \<^verbatim>\<open>Reload\<close> returns no error,
  the merged sources are all the registered sources.
\<close>

theorem layer_precedence:
  "data (New os) k = layered (loaderLayers os) k
   \<and> data (fst (snd (Reload os c w))) k
       = layered (rev (mergedMaps (sources c) w) @ loaderLayers os) k
   \<and> (fst (Reload os c w) = None \<longrightarrow> length (mergedMaps (sources c) w) = length (sources c))
   \<and> loaderLayers os
       = [environLayer os,
          fileLayer os (''.'' @ (if Getenv os ''APP_ENV'' = [] then ''dev'' else Getenv os ''APP_ENV'') @ ''.env''),
          fileLayer os ''.local.env'', fileLayer os ''.env'']"
proof -
  have ok: "fst (Reload os c w) = None \<longrightarrow> length (mergedMaps (sources c) w) = length (sources c)"
    unfolding Reload_unfold by (rule impI) (rule Reload_sources_ok_length)
  have n: "data (New os) k = layered (loaderLayers os) k"
    by (rule New_layered)
  have l: "loaderLayers os
       = [environLayer os,
          fileLayer os (''.'' @ (if Getenv os ''APP_ENV'' = [] then ''dev'' else Getenv os ''APP_ENV'') @ ''.env''),
          fileLayer os ''.local.env'', fileLayer os ''.env'']"
    by (simp add: loaderLayers_def envFileName_def)
  show ?thesis by (intro conjI n Reload_data ok l)
qed

theorem layer_precedence_witness:
  "fst (Reload testOS (AddSource (New testOS) goodSource) 0) = None
   \<and> length (mergedMaps (sources (AddSource (New testOS) goodSource)) 0)
       = length (sources (AddSource (New testOS) goodSource))
   \<and> data (New testOS :: (unit, nat) config) ''SHARED_KEY'' = Some (AnyString ''dev_shared'')
   \<and> data (New testOS :: (unit, nat) config) ''PORT'' = Some (AnyString ''9090'')
   \<and> data (fst (snd (Reload testOS (AddSource (New testOS) goodSource) 0))) ''PORT''
       = Some (AnyString ''7070'')
   \<and> data (fst (snd (Reload testOS (AddSource (New testOS) goodSource) 0))) ''SHARED_KEY''
       = Some (AnyString ''dev_shared'')"
proof -
  let ?c = "AddSource (New testOS) goodSource"
  have s: "sources ?c = [goodSource]" by (simp add: AddSource_def New_data)
  have ok: "fst (Reload testOS ?c 0) = None"
    by (simp add: Reload_unfold AddSource_def New_data goodSource_def)
  have l1: "layered (loaderLayers testOS) ''SHARED_KEY'' = Some (AnyString ''dev_shared'' :: unit any)"
    by code_simp
  have l2: "layered (loaderLayers testOS) ''PORT'' = Some (AnyString ''9090'' :: unit any)"
    by code_simp
  have l3: "layered (rev (mergedMaps [goodSource] 0) @ loaderLayers testOS) ''PORT''
              = Some (AnyString ''7070'')"
    by code_simp
  have l4: "layered (rev (mergedMaps [goodSource] 0) @ loaderLayers testOS) ''SHARED_KEY''
              = Some (AnyString ''dev_shared'')"
    by code_simp
  note p1 = layer_precedence [of testOS "''SHARED_KEY''" ?c 0]
  note p2 = layer_precedence [of testOS "''PORT''" ?c 0]
  from p1 [THEN conjunct1] l1
  have n1: "data (New testOS :: (unit, nat) config) ''SHARED_KEY'' = Some (AnyString ''dev_shared'')"
    by (rule trans)
  from p2 [THEN conjunct1] l2
  have n2: "data (New testOS :: (unit, nat) config) ''PORT'' = Some (AnyString ''9090'')"
    by (rule trans)
  from p2 [THEN conjunct2, THEN conjunct1] l3
  have r1: "data (fst (snd (Reload testOS ?c 0))) ''PORT'' = Some (AnyString ''7070'')"
    unfolding s by (rule trans)
  from p1 [THEN conjunct2, THEN conjunct1] l4
  have r2: "data (fst (snd (Reload testOS ?c 0))) ''SHARED_KEY'' = Some (AnyString ''dev_shared'')"
    unfolding s by (rule trans)
  from p1 [THEN conjunct2, THEN conjunct2, THEN conjunct1] ok
  have len: "length (mergedMaps (sources ?c) 0) = length (sources ?c)"
    by (rule mp)
  show ?thesis by (intro conjI ok len n1 n2 r1 r2)
qed

lemma sources_data_upd:
  "c\<lparr>sources := x, data := d\<rparr> = c\<lparr>data := d, sources := x\<rparr>"
  by (cases c) simp

lemma sources_cache_upd:
  "c\<lparr>sources := x, cache := e\<rparr> = c\<lparr>cache := e, sources := x\<rparr>"
  by (cases c) simp

lemma Reload_sources_sources_upd:
  "Reload_sources srcs (c\<lparr>sources := x\<rparr>) w
     = (case Reload_sources srcs c w of (e, c', w') \<Rightarrow> (e, c'\<lparr>sources := x\<rparr>, w'))"
  by (induction srcs arbitrary: c w)
     (auto simp: sources_data_upd split: prod.splits option.splits)

lemma Reload_sources_append:
  "Reload_sources (pre @ rest) c w
     = (case Reload_sources pre c w of
          (None, c', w') \<Rightarrow> Reload_sources rest c' w'
        | (Some e, c', w') \<Rightarrow> (Some e, c', w'))"
  by (induction pre arbitrary: c w) (auto split: prod.splits option.splits)

section \<open>Reload with a failing source\<close>

text \<open>
  C2. Let the registered sources be \<open>pre\<close>, then \<open>source\<close>, then \<open>post\<close>, let a
  \<^verbatim>\<open>Reload\<close> with the sources \<open>pre\<close> alone succeed and leave the store \<open>c1\<close> and the
  world \<open>w1\<close>, and let \<^verbatim>\<open>Load\<close> of \<open>source\<close> return the error \<open>err\<close> in that world.
  Then \<^verbatim>\<open>Reload\<close> returns \<open>err\<close>, and leaves the store as the successful \<^verbatim>\<open>Reload\<close> of
  \<open>pre\<close> does and the world as the failing \<^verbatim>\<open>Load\<close> left it: no \<^verbatim>\<open>Load\<close> of \<open>post\<close> has
  run, and whatever \<open>post\<close> is, the result is the same. The cache of that store is empty,
  its \<^verbatim>\<open>data\<close> holds the loader's layers under the maps of \<open>pre\<close>, all of them merged, so
  every key that the files and the environment give is present. \<^verbatim>\<open>AddSource\<close> appends, so
  the order of the list is the order of registration.
\<close>

theorem Reload_stops_at_failing_source:
  assumes "sources (c :: ('a, 'w) config) = pre @ source # post"
    and "Reload os (c\<lparr>sources := pre\<rparr>) w = (None, c1, w1)"
    and "Load source w1 = ((m, Some err), w2)"
  shows "Reload os c w = (Some err, c1\<lparr>sources := sources c\<rparr>, w2)
       \<and> cache c1 = Map.empty
       \<and> (\<forall>k. data c1 k = layered (rev (mergedMaps pre w) @ loaderLayers os) k)
       \<and> length (mergedMaps pre w) = length pre
       \<and> dom (data (New os :: ('a, 'w) config)) \<subseteq> dom (data c1)
       \<and> sources (AddSource c s) = sources c @ [s]"
proof -
  define c0 where "c0 = c\<lparr>cache := Map.empty,
            data := fileLayer os ''.env'' ++ fileLayer os ''.local.env''
                      ++ fileLayer os (envFileName os) ++ environLayer os\<rparr>"
  obtain e' c1' w1' where p: "Reload_sources pre c0 w = (e', c1', w1')"
    by (cases "Reload_sources pre c0 w") auto
  have "Reload os (c\<lparr>sources := pre\<rparr>) w = Reload_sources pre (c0\<lparr>sources := pre\<rparr>) w"
    by (simp add: Reload_unfold c0_def sources_data_upd sources_cache_upd)
  also have "\<dots> = (e', c1'\<lparr>sources := pre\<rparr>, w1')"
    by (simp add: Reload_sources_sources_upd p)
  finally have "(e', c1'\<lparr>sources := pre\<rparr>, w1') = (None, c1, w1)"
    using assms(2) by simp
  then have e': "e' = None" and c1: "c1 = c1'\<lparr>sources := pre\<rparr>" and w1': "w1' = w1"
    by simp_all
  have f: "cache c1' = Map.empty" "sources c1' = sources c"
    using Reload_sources_other_fields [of pre c0 w] unfolding p by (simp_all add: c0_def)
  have same: "c1\<lparr>sources := sources c\<rparr> = c1'"
    using f(2) by (simp add: c1)
  have "Reload os c w = Reload_sources (pre @ source # post) c0 w"
    by (simp add: Reload_unfold c0_def assms(1))
  also have "\<dots> = (Some err, c1', w2)"
    by (simp add: Reload_sources_append p e' w1' assms(3))
  finally have r: "Reload os c w = (Some err, c1\<lparr>sources := sources c\<rparr>, w2)"
    by (simp only: same)
  have ca: "cache c1 = Map.empty" using f(1) by (simp add: c1)
  have d: "data c1 k = layered (rev (mergedMaps pre w) @ loaderLayers os) k" for k
  proof -
    have "data c1 k = data (fst (snd (Reload_sources pre c0 w))) k" by (simp add: p c1)
    also have "\<dots> = layered (rev (mergedMaps pre w) @ [data c0]) k"
      by (rule Reload_sources_merged)
    also have "\<dots> = layered (rev (mergedMaps pre w) @ loaderLayers os) k"
      by (simp add: c0_def loaderLayers_add)
    finally show ?thesis .
  qed
  have len: "length (mergedMaps pre w) = length pre"
    using Reload_sources_ok_length [of pre c0 w] by (simp add: p e')
  have sub: "dom (data (New os :: ('a, 'w) config)) \<subseteq> dom (data c1)"
  proof
    fix k assume k: "k \<in> dom (data (New os :: ('a, 'w) config))"
    have "data (New os :: ('a, 'w) config) k = layered (loaderLayers os) k"
      by (rule New_layered)
    with k obtain v where "layered (loaderLayers os) k = Some (v :: 'a any)"
      by (auto simp: dom_def)
    then have "layered (rev (mergedMaps pre w) @ loaderLayers os) k \<noteq> None"
      by (simp add: layered_append split: option.splits)
    then show "k \<in> dom (data c1)" by (simp add: d dom_def)
  qed
  have a: "sources (AddSource c s) = sources c @ [s]" by (simp add: AddSource_def)
  from d have d': "\<forall>k. data c1 k = layered (rev (mergedMaps pre w) @ loaderLayers os) k" by simp
  show ?thesis by (intro conjI r ca d' len sub a)
qed

theorem Reload_stops_at_failing_source_witness:
  "sources (AddSource (AddSource (AddSource (New testOS) goodSource) failingSource) lateSource)
     = [goodSource] @ failingSource # [lateSource]
   \<and> fst (Reload testOS (AddSource (New testOS) goodSource) 0) = None
   \<and> snd (snd (Reload testOS (AddSource (New testOS) goodSource) 0)) = 1
   \<and> Load failingSource 1 = ((Map.empty, Some (Error ''unreachable'')), 2)
   \<and> fst (Reload testOS
            (AddSource (AddSource (AddSource (New testOS) goodSource) failingSource) lateSource) 0)
       = Some (Error ''unreachable'')
   \<and> snd (snd (Reload testOS
            (AddSource (AddSource (AddSource (New testOS) goodSource) failingSource) lateSource) 0))
       = 2
   \<and> data (fst (snd (Reload testOS
            (AddSource (AddSource (AddSource (New testOS) goodSource) failingSource) lateSource) 0)))
         ''REGION'' = Some (AnyString ''eu'')
   \<and> data (fst (snd (Reload testOS
            (AddSource (AddSource (AddSource (New testOS) goodSource) failingSource) lateSource) 0)))
         ''BASE_KEY'' = Some (AnyString ''base_value'')
   \<and> cache (fst (snd (Reload testOS
            (AddSource (AddSource (AddSource (New testOS) goodSource) failingSource) lateSource) 0)))
       = Map.empty"
proof -
  let ?c1 = "AddSource (New testOS) goodSource :: (unit, nat) config"
  let ?c = "AddSource (AddSource ?c1 failingSource) lateSource"
  let ?r = "Reload testOS ?c1 0"
  have s: "sources ?c = [goodSource] @ failingSource # [lateSource]"
    by (simp add: AddSource_def New_data)
  have same: "?c\<lparr>sources := [goodSource]\<rparr> = ?c1"
    by (simp add: AddSource_def New_data)
  have ok: "fst ?r = None" and w1: "snd (snd ?r) = 1"
    by (simp_all add: Reload_unfold AddSource_def New_data goodSource_def)
  have h2: "Reload testOS (?c\<lparr>sources := [goodSource]\<rparr>) 0 = (None, fst (snd ?r), 1)"
    unfolding same using ok w1 by (cases ?r) simp
  have h3: "Load failingSource 1 = ((Map.empty :: string \<rightharpoonup> unit any, Some (Error ''unreachable'')), 2)"
    by (simp add: failingSource_def)
  have l1: "layered (rev (mergedMaps [goodSource] 0) @ loaderLayers testOS) ''REGION''
              = Some (AnyString ''eu'')"
    by code_simp
  have l2: "layered (rev (mergedMaps [goodSource] 0) @ loaderLayers testOS) ''BASE_KEY''
              = Some (AnyString ''base_value'')"
    by code_simp
  from Reload_stops_at_failing_source [OF s h2 h3] s ok w1 h3 l1 l2
  show ?thesis by simp
qed

section \<open>The cache\<close>

lemma Get_cache:
  "cache (snd (Get c k)) = (case cache c k of Some v \<Rightarrow> cache c | None \<Rightarrow>
       (case data c k of Some v \<Rightarrow> (cache c)(k \<mapsto> v) | None \<Rightarrow> cache c))"
  by (simp add: Get_def split: option.splits)

lemma Get_data: "data (snd (Get c k)) = data c"
  by (simp add: Get_def split: option.splits)

lemma getters_state:
  "snd (GetString sprintv c k) = snd (Get c k)"
  "snd (GetInt intSize sprintv c k) = snd (Get c k)"
  "snd (GetInt64 sprintv c k) = snd (Get c k)"
  "snd (GetFloat64 pf sprintv c k) = snd (Get c k)"
  "snd (GetBool sprintv c k) = snd (Get c k)"
  "snd (GetDuration pd sprintv c k) = snd (Get c k)"
  "snd (GetStringSlice sprintv c k) = snd (Get c k)"
proof -
  show s: "snd (GetString sprintv c k) = snd (Get c k)"
    by (simp add: GetString_def split: prod.splits any.splits)
  show "snd (GetInt intSize sprintv c k) = snd (Get c k)"
    by (simp add: GetInt_def s [symmetric] split: prod.splits)
  show "snd (GetInt64 sprintv c k) = snd (Get c k)"
    by (simp add: GetInt64_def s [symmetric] split: prod.splits)
  show "snd (GetFloat64 pf sprintv c k) = snd (Get c k)"
    by (simp add: GetFloat64_def s [symmetric] split: prod.splits)
  show "snd (GetBool sprintv c k) = snd (Get c k)"
    by (simp add: GetBool_def s [symmetric] split: prod.splits)
  show "snd (GetDuration pd sprintv c k) = snd (Get c k)"
    by (simp add: GetDuration_def s [symmetric] split: prod.splits)
  show "snd (GetStringSlice sprintv c k) = snd (Get c k)"
    by (simp add: GetStringSlice_def s [symmetric] split: prod.splits)
qed

lemma exec_read:
  "read_key op = Some k \<Longrightarrow> exec intSize sprintv pf pd op (c, w) = (snd (Get c k), w)"
  by (cases op) (simp_all add: getters_state)

lemma Reload_cache: "cache (fst (snd (Reload os c w))) = Map.empty"
  using Reload_sources_other_fields
    [of "sources c" "c\<lparr>cache := Map.empty,
            data := fileLayer os ''.env'' ++ fileLayer os ''.local.env''
                      ++ fileLayer os (envFileName os) ++ environLayer os\<rparr>" w]
  by (simp add: Reload_unfold)

lemma exec_write_cache:
  "read_key op = None \<Longrightarrow>
     cache (fst (exec intSize sprintv pf pd op (c, w))) j = Some v \<Longrightarrow> cache c j = Some v"
  by (cases op) (auto simp: Set_def AddSource_def Reload_cache split: if_splits)

lemma exec_cache_origin:
  assumes "cache (fst (exec intSize sprintv pf pd op (c, w))) j = Some v"
  shows "cache c j = Some v \<or> (read_key op = Some j \<and> data c j = Some v)"
proof (cases "read_key op")
  case None
  with assms show ?thesis by (auto dest: exec_write_cache)
next
  case (Some k)
  with assms have "cache (snd (Get c k)) j = Some v" by (simp add: exec_read)
  with Some show ?thesis by (auto simp: Get_cache split: option.splits if_splits)
qed

lemma exec_inv:
  assumes "cache c \<subseteq>\<^sub>m data c"
  shows "cache (fst (exec intSize sprintv pf pd op (c, w))) \<subseteq>\<^sub>m data (fst (exec intSize sprintv pf pd op (c, w)))"
proof (cases "read_key op")
  case (Some k)
  then have "exec intSize sprintv pf pd op (c, w) = (snd (Get c k), w)" by (rule exec_read)
  with assms show ?thesis
    by (auto simp: Get_cache Get_data map_le_def dom_def split: option.splits if_splits)
next
  case None
  show ?thesis
  proof (cases op)
    case (OpSet key val)
    with assms show ?thesis by (auto simp: Set_def map_le_def dom_def)
  next
    case (OpReload os)
    then show ?thesis by (simp add: Reload_cache split: prod.splits)
  next
    case (OpAddSource s)
    with assms show ?thesis by (simp add: AddSource_def)
  qed (use None assms in simp_all)
qed

lemma run_snoc: "run intSize sprintv pf pd (ops @ [op]) s = exec intSize sprintv pf pd op (run intSize sprintv pf pd ops s)"
  by (simp add: run_def)

lemma run_inv:
  "cache (fst (run intSize sprintv pf pd ops (New os, w))) \<subseteq>\<^sub>m data (fst (run intSize sprintv pf pd ops (New os, w)))"
proof (induction ops rule: rev_induct)
  case Nil
  show ?case by (simp add: run_def New_data)
next
  case (snoc op ops)
  obtain c w' where r: "run intSize sprintv pf pd ops (New os, w) = (c, w')"
    by (cases "run intSize sprintv pf pd ops (New os, w)") auto
  with snoc have "cache c \<subseteq>\<^sub>m data c" by simp
  then show ?case unfolding run_snoc r by (rule exec_inv)
qed

lemma run_read_keys:
  "dom (cache (fst (run intSize sprintv pf pd ops (New os, w)))) \<subseteq> {k. Some k \<in> read_key ` set ops}"
proof (induction ops rule: rev_induct)
  case Nil
  show ?case by (simp add: run_def New_data)
next
  case (snoc op ops)
  obtain c w' where r: "run intSize sprintv pf pd ops (New os, w) = (c, w')"
    by (cases "run intSize sprintv pf pd ops (New os, w)") auto
  show ?case
  proof
    fix j assume "j \<in> dom (cache (fst (run intSize sprintv pf pd (ops @ [op]) (New os, w))))"
    then obtain v where "cache (fst (exec intSize sprintv pf pd op (c, w'))) j = Some v"
      unfolding run_snoc r by auto
    then have "cache c j = Some v \<or> (read_key op = Some j \<and> data c j = Some v)"
      by (rule exec_cache_origin)
    then show "j \<in> {k. Some k \<in> read_key ` set (ops @ [op])}"
    proof
      assume "cache c j = Some v"
      with snoc r have "Some j \<in> read_key ` set ops" by auto
      then show ?thesis by auto
    next
      assume "read_key op = Some j \<and> data c j = Some v"
      then have "Some j = read_key op" by simp
      then show ?thesis by auto
    qed
  qed
qed

lemma Get_authoritative:
  "cache c \<subseteq>\<^sub>m data c \<Longrightarrow> fst (Get c k) = (case data c k of Some v \<Rightarrow> v | None \<Rightarrow> AnyNil)"
  by (auto simp: Get_def map_le_def dom_def split: option.splits)

text \<open>
  C4. Whatever call runs, an entry that the cache has afterwards was in the cache before, or
  the call went through \<^verbatim>\<open>Get\<close> for that key and \<^verbatim>\<open>data\<close> held that value: no other call,
  and no write path, puts an entry into the cache. \<^verbatim>\<open>Get\<close> on a key that neither map holds
  returns nil and leaves the store as it was. After \<^verbatim>\<open>Set(k, v)\<close> the key \<open>k\<close> is not in
  the cache, and after \<^verbatim>\<open>Reload\<close>, with or without an error, the cache is empty. In the
  store that any sequence of calls leaves, starting from \<^verbatim>\<open>New\<close>, every entry of the cache is
  an entry of \<^verbatim>\<open>data\<close>, the cached keys are among the keys that the calls have read, and
  \<^verbatim>\<open>Get\<close> returns for every key what \<^verbatim>\<open>data\<close> holds for it.
\<close>

theorem cache_discipline:
  "(cache (fst (exec intSize sprintv pf pd op (c, w))) j = Some v
      \<longrightarrow> cache c j = Some v \<or> (read_key op = Some j \<and> data c j = Some v))
   \<and> (data c k = None \<and> cache c k = None \<longrightarrow> Get c k = (AnyNil, c))
   \<and> cache (Set c k val) k = None
   \<and> cache (fst (snd (Reload os c w))) = Map.empty
   \<and> cache (fst (run intSize sprintv pf pd ops (New os', w))) \<subseteq>\<^sub>m data (fst (run intSize sprintv pf pd ops (New os', w)))
   \<and> dom (cache (fst (run intSize sprintv pf pd ops (New os', w)))) \<subseteq> {k. Some k \<in> read_key ` set ops}
   \<and> fst (Get (fst (run intSize sprintv pf pd ops (New os', w))) k)
       = (case data (fst (run intSize sprintv pf pd ops (New os', w))) k of Some v \<Rightarrow> v | None \<Rightarrow> AnyNil)"
proof -
  have 1: "cache (fst (exec intSize sprintv pf pd op (c, w))) j = Some v
      \<longrightarrow> cache c j = Some v \<or> (read_key op = Some j \<and> data c j = Some v)"
    by (rule impI) (rule exec_cache_origin)
  have 2: "data c k = None \<and> cache c k = None \<longrightarrow> Get c k = (AnyNil, c)"
    by (simp add: Get_def)
  have 3: "cache (Set c k val) k = None" by (simp add: Set_def)
  note 4 = Reload_cache [of os c w]
  note 5 = run_inv [of intSize sprintv pf pd ops os' w]
  note 6 = run_read_keys [of intSize sprintv pf pd ops os' w]
  note 7 = Get_authoritative [OF 5, of k]
  show ?thesis by (intro conjI 1 2 3 4 5 6 7)
qed

theorem cache_discipline_witness:
  "cache (fst (exec 64 (\<lambda>_. ''()'') (\<lambda>_. (0, None)) (\<lambda>_. (0, None)) (OpGet ''PORT'') (bigConfig, ())))
       ''PORT'' = Some (AnyString ''80a'')
   \<and> (cache bigConfig ''PORT'' = Some (AnyString ''80a'')
        \<or> (read_key (OpGet ''PORT'' :: (unit, unit) op) = Some ''PORT''
            \<and> data bigConfig ''PORT'' = Some (AnyString ''80a'')))
   \<and> data bigConfig ''MISSING'' = None
   \<and> cache bigConfig ''MISSING'' = None
   \<and> Get bigConfig ''MISSING'' = (AnyNil, bigConfig)
   \<and> cache (Set bigConfig ''MISSING'' AnyNil) ''MISSING'' = None
   \<and> dom (cache (fst (run 64 (\<lambda>_. ''()'') (\<lambda>_. (0, None)) (\<lambda>_. (0, None))
              [OpSet ''A'' (AnyString ''1''), OpGet ''A'', OpGetInt ''MISSING'', OpReload testOS,
               OpGetBool ''PORT'']
              (New testOS :: (unit, unit) config, ()))))
        \<subseteq> {''A'', ''MISSING'', ''PORT''}"
proof -
  note t = cache_discipline
    [where intSize = 64 and sprintv = "\<lambda>_. ''()''" and pf = "\<lambda>_. (0, None)" and pd = "\<lambda>_. (0, None)"
       and op = "OpGet ''PORT''" and c = bigConfig and w = "()" and j = "''PORT''"
       and v = "AnyString ''80a''" and k = "''MISSING''" and val = AnyNil and os = testOS
       and os' = testOS
       and ops = "[OpSet ''A'' (AnyString ''1''), OpGet ''A'', OpGetInt ''MISSING'', OpReload testOS,
               OpGetBool ''PORT'']"]
  have h1: "cache (fst (exec 64 (\<lambda>_. ''()'') (\<lambda>_. (0, None)) (\<lambda>_. (0, None)) (OpGet ''PORT'') (bigConfig, ())))
       ''PORT'' = Some (AnyString ''80a'')"
    by (simp add: Get_def bigConfig_def)
  have d: "data bigConfig ''MISSING'' = None" and c: "cache bigConfig ''MISSING'' = None"
    by (simp_all add: bigConfig_def)
  from t [THEN conjunct1] h1
  have c1: "cache bigConfig ''PORT'' = Some (AnyString ''80a'')
        \<or> (read_key (OpGet ''PORT'' :: (unit, unit) op) = Some ''PORT''
            \<and> data bigConfig ''PORT'' = Some (AnyString ''80a''))"
    by (rule mp)
  from d c have dc: "data bigConfig ''MISSING'' = None \<and> cache bigConfig ''MISSING'' = None"
    by (rule conjI)
  from t [THEN conjunct2, THEN conjunct1] dc
  have c2: "Get bigConfig ''MISSING'' = (AnyNil, bigConfig)" by (rule mp)
  note c3 = t [THEN conjunct2, THEN conjunct2, THEN conjunct1]
  note c6 = t [THEN conjunct2, THEN conjunct2, THEN conjunct2, THEN conjunct2, THEN conjunct2,
               THEN conjunct1]
  have "{k. Some k \<in> read_key ` set [OpSet ''A'' (AnyString ''1'') :: (unit, unit) op, OpGet ''A'',
            OpGetInt ''MISSING'', OpReload testOS, OpGetBool ''PORT'']} \<subseteq> {''A'', ''MISSING'', ''PORT''}"
    by auto
  with c6 have c6': "dom (cache (fst (run 64 (\<lambda>_. ''()'') (\<lambda>_. (0, None)) (\<lambda>_. (0, None))
              [OpSet ''A'' (AnyString ''1''), OpGet ''A'', OpGetInt ''MISSING'', OpReload testOS,
               OpGetBool ''PORT'']
              (New testOS :: (unit, unit) config, ()))))
        \<subseteq> {''A'', ''MISSING'', ''PORT''}"
    by (rule subset_trans)
  show ?thesis by (intro conjI h1 c1 d c c2 c3 c6')
qed

section \<open>Concurrent callers\<close>

text \<open>
  A goroutine that runs alone through the steps of \<^verbatim>\<open>Get\<close>, or of \<^verbatim>\<open>Set\<close>, returns what the
  method returns and leaves the store as the method leaves it.
\<close>

lemma lone_Get_steps:
  "fold sched [0, 0, 0, 0, 0] ([InGet key GetRLock v0], \<lparr>readers = 0, writer = False, store = c\<rparr>)
     = ([InGet key GetReturned (fst (Get c key))],
        \<lparr>readers = 0, writer = False, store = snd (Get c key)\<rparr>)"
  by (cases "cache c key"; cases "data c key") (simp_all add: sched_def Get_def)

lemma lone_Set_steps:
  "fold sched [0, 0, 0, 0] ([InSet key val SetLock], \<lparr>readers = 0, writer = False, store = c\<rparr>)
     = ([InSet key val SetReturned], \<lparr>readers = 0, writer = False, store = Set c key val\<rparr>)"
  by (simp add: sched_def Set_def)

lemma Set_waits_for_readers:
  "0 < readers s \<Longrightarrow> sched 0 ([InSet key val SetLock], s) = ([InSet key val SetLock], s)"
  by (simp add: sched_def)

text \<open>
  Every step keeps the mutex consistent with the goroutines, so in every schedule a goroutine
  that holds the write lock, as \<^verbatim>\<open>Set\<close> does between its first and its last step, is the
  only one that holds any lock: \<^verbatim>\<open>Set\<close> excludes every other critical section.
\<close>

lemma count_upd:
  "i < length ts \<Longrightarrow>
     length (filter P (ts[i := t])) + (if P (ts ! i) then 1 else 0)
       = length (filter P ts) + (if P t then 1 else 0)"
proof (induction ts arbitrary: i)
  case Nil
  then show ?case by simp
next
  case (Cons a ts)
  show ?case
  proof (cases i)
    case 0
    then show ?thesis by simp
  next
    case (Suc n)
    with Cons.prems have "n < length ts" by simp
    from Cons.IH [OF this] Suc show ?thesis by simp
  qed
qed

lemma thread_step_inv:
  assumes inv: "mutex_inv (ts, s)" and i: "i < length ts"
    and st: "thread_step (ts ! i) s = Some (t', s')"
  shows "mutex_inv (ts[i := t'], s')"
proof -
  note r = count_upd [OF i, of holds_read t']
  note w = count_upd [OF i, of holds_write t']
  show ?thesis
  proof (cases "ts ! i")
    case (InGet key pc val)
    with st inv r w show ?thesis
      by (cases pc) (auto simp: mutex_inv_def split: if_splits option.splits)
  next
    case (InSet key val pc)
    with st inv r w show ?thesis
      by (cases pc) (auto simp: mutex_inv_def split: if_splits option.splits)
  qed
qed

lemma sched_inv: "mutex_inv st \<Longrightarrow> mutex_inv (sched i st)"
proof -
  assume inv: "mutex_inv st"
  obtain ts s where st: "st = (ts, s)" by (cases st)
  show ?thesis
  proof (cases "i < length ts")
    case False
    with inv st show ?thesis by (simp add: sched_def)
  next
    case True
    show ?thesis
    proof (cases "thread_step (ts ! i) s")
      case None
      with inv st True show ?thesis by (simp add: sched_def)
    next
      case (Some p)
      obtain t' s' where p: "p = (t', s')" by (cases p)
      from inv st have "mutex_inv (ts, s)" by simp
      from thread_step_inv [OF this True] Some p have "mutex_inv (ts[i := t'], s')" by simp
      with st True Some p show ?thesis by (simp add: sched_def)
    qed
  qed
qed

lemma schedule_inv: "mutex_inv st \<Longrightarrow> mutex_inv (fold sched schedule st)"
  by (induction schedule arbitrary: st) (simp_all add: sched_inv)

lemma two_hits:
  assumes "i < j" and "j < length ts" and "P (ts ! i)" and "P (ts ! j)"
  shows "2 \<le> length (filter P ts)"
proof -
  from assms(2) have ts: "ts = take j ts @ ts ! j # drop (Suc j) ts"
    by (rule id_take_nth_drop)
  from assms(1,2) have "ts ! i \<in> set (take j ts)"
    by (metis in_set_conv_nth length_take min.absorb2 nat_less_le nth_take)
  with assms(3) have "filter P (take j ts) \<noteq> []" by (auto simp: filter_empty_conv)
  then have 1: "1 \<le> length (filter P (take j ts))" by (cases "filter P (take j ts)") simp_all
  have "length (filter P ts)
      = length (filter P (take j ts)) + length (filter P (ts ! j # drop (Suc j) ts))"
    by (subst ts) simp
  with 1 assms(4) show ?thesis by simp
qed

lemma ne_set: "x \<in> set xs \<Longrightarrow> xs \<noteq> []"
  by (cases xs) simp_all

lemma write_lock_excludes:
  assumes inv: "mutex_inv (ts, s)" and i: "i < length ts" and j: "j < length ts"
    and ne: "i \<noteq> j" and wi: "holds_write (ts ! i)"
  shows "\<not> holds_write (ts ! j) \<and> \<not> holds_read (ts ! j)"
proof -
  from i wi have "ts ! i \<in> set (filter holds_write ts)" by simp
  then have pos: "filter holds_write ts \<noteq> []" by (rule ne_set)
  with inv have one: "length (filter holds_write ts) = 1" and zero: "length (filter holds_read ts) = 0"
    by (auto simp: mutex_inv_def split: if_splits)
  have "\<not> holds_write (ts ! j)"
  proof
    assume wj: "holds_write (ts ! j)"
    from ne consider "i < j" | "j < i" by (meson nat_neq_iff)
    then have "2 \<le> length (filter holds_write ts)"
    proof cases
      case 1 from two_hits [OF this j wi wj] show ?thesis .
    next
      case 2 from two_hits [OF this i wj wi] show ?thesis .
    qed
    with one show False by simp
  qed
  moreover from zero j have "\<not> holds_read (ts ! j)"
    by (auto simp: filter_empty_conv)
  ultimately show ?thesis by simp
qed

lemma entry_mutex_inv:
  assumes "\<And>t. t \<in> set ts \<Longrightarrow> \<not> holds_read t \<and> \<not> holds_write t"
  shows "mutex_inv (ts, \<lparr>readers = 0, writer = False, store = c\<rparr>)"
proof -
  from assms have "filter holds_read ts = []" and "filter holds_write ts = []"
    by (simp_all add: filter_empty_conv)
  then show ?thesis by (simp add: mutex_inv_def)
qed

lemma write_lock_excludes_in_every_schedule:
  assumes "mutex_inv st" and "fold sched schedule st = (ts, s)"
    and "i < length ts" and "j < length ts" and "i \<noteq> j" and "holds_write (ts ! i)"
  shows "\<not> holds_write (ts ! j) \<and> \<not> holds_read (ts ! j)"
proof -
  from assms(1) have "mutex_inv (fold sched schedule st)" by (rule schedule_inv)
  then have "mutex_inv (ts, s)" by (simp only: assms(2))
  from write_lock_excludes [OF this assms(3-6)] show ?thesis .
qed

text \<open>
  C9. Safety under concurrent use fails on the code for two concurrent calls of \<^verbatim>\<open>Get\<close>. \<^verbatim>\<open>Get\<close> assigns
  \<^verbatim>\<open>c.cache[key]\<close> while it holds the read lock, and the read lock is shared. Two goroutines
  call \<^verbatim>\<open>Get("A")\<close> and \<^verbatim>\<open>Get("B")\<close> on a store that has both keys in \<^verbatim>\<open>data\<close> and none
  in the cache; after the schedule below both hold the read lock, no write lock is held, and
  the next step of each is the assignment to \<^verbatim>\<open>c.cache\<close>: two writes to one map that no
  lock orders.
\<close>

theorem two_Gets_write_cache_together:
  "(case fold sched [0, 1, 0, 0, 1, 1] twoGets of
      (ts, s) \<Rightarrow>
        ts = [InGet ''A'' GetFillCache (AnyString ''1''), InGet ''B'' GetFillCache (AnyString ''2'')]
        \<and> readers s = 2 \<and> \<not> writer s
        \<and> writes_cache (ts ! 0) \<and> writes_cache (ts ! 1))"
  by (simp add: sched_def twoGets_def twoKeys_def)

end
